theory Spec2Isabelle
  imports Main "HOL-Library.Char_ord" "HOL-Library.List_Lexorder" "HOL-Library.Multiset"
    "HOL-Library.AList"
begin

text \<open>
  A shallow embedding of the routing state manager of \<^verbatim>\<open>src/api/app.py\<close>: the domain
  normalizer, the state store (\<^verbatim>\<open>read_state\<close>, \<^verbatim>\<open>update_state\<close>), the generator of
  the dynamic routing configuration, and the four request handlers that change the
  state (\<^verbatim>\<open>host_domain\<close>, \<^verbatim>\<open>setup_date_storage\<close>, \<^verbatim>\<open>register_agent\<close>,
  \<^verbatim>\<open>agents_create\<close>). The two files are values that the functions take and return;
  a write succeeds and a document written is the document read back. The clock,
  the configured API key and the digest function are inputs of each call. Calls
  run one after the other, as under the lock of the source. The event queue, the
  calls to language models and the seeding of domains from the process environment
  are not part of the model.
\<close>

section \<open>Python values used by \<^verbatim>\<open>src/api/app.py\<close>\<close>

text \<open>
  Strings are \<^typ>\<open>string\<close>: a character is a code point below 256, and string
  comparison is the lexicographic order on code points, as in Python. On these
  code points \<^verbatim>\<open>str.lower\<close>, \<^verbatim>\<open>str.isalnum\<close> and \<^verbatim>\<open>str.isspace\<close> are the tables
  below. Text with code points from 256 on is outside the model.
\<close>

datatype exn =
    JSONDecodeError
  | OSError
  | UnicodeDecodeError
  | ValueError string
  | KeyError string
  | HTTPException nat string

definition ascii_uppercase :: string where
  "ascii_uppercase = ''ABCDEFGHIJKLMNOPQRSTUVWXYZ''"

definition ascii_lowercase :: string where
  "ascii_lowercase = ''abcdefghijklmnopqrstuvwxyz''"

definition ascii_digits :: string where
  "ascii_digits = ''0123456789''"

text \<open>The letters \<^verbatim>\<open>U+00C0\<close> to \<^verbatim>\<open>U+00DE\<close> (without the sign \<^verbatim>\<open>U+00D7\<close>) and their lower case\<close>
definition latin1_uppercase :: string where
  "latin1_uppercase =
     [CHR 0xC0, CHR 0xC1, CHR 0xC2, CHR 0xC3, CHR 0xC4, CHR 0xC5, CHR 0xC6,
      CHR 0xC7, CHR 0xC8, CHR 0xC9, CHR 0xCA, CHR 0xCB, CHR 0xCC, CHR 0xCD,
      CHR 0xCE, CHR 0xCF, CHR 0xD0, CHR 0xD1, CHR 0xD2, CHR 0xD3, CHR 0xD4,
      CHR 0xD5, CHR 0xD6, CHR 0xD8, CHR 0xD9, CHR 0xDA, CHR 0xDB, CHR 0xDC,
      CHR 0xDD, CHR 0xDE]"

definition latin1_lowercase :: string where
  "latin1_lowercase =
     [CHR 0xE0, CHR 0xE1, CHR 0xE2, CHR 0xE3, CHR 0xE4, CHR 0xE5, CHR 0xE6,
      CHR 0xE7, CHR 0xE8, CHR 0xE9, CHR 0xEA, CHR 0xEB, CHR 0xEC, CHR 0xED,
      CHR 0xEE, CHR 0xEF, CHR 0xF0, CHR 0xF1, CHR 0xF2, CHR 0xF3, CHR 0xF4,
      CHR 0xF5, CHR 0xF6, CHR 0xF8, CHR 0xF9, CHR 0xFA, CHR 0xFB, CHR 0xFC,
      CHR 0xFD, CHR 0xFE]"

text \<open>The code points from 128 to 255 on which \<^verbatim>\<open>str.isalnum\<close> holds: letters,
  superscript digits and vulgar fractions\<close>
definition latin1_alnum :: string where
  "latin1_alnum =
     [CHR 0xAA, CHR 0xB2, CHR 0xB3, CHR 0xB5, CHR 0xB9, CHR 0xBA, CHR 0xBC,
      CHR 0xBD, CHR 0xBE, CHR 0xC0, CHR 0xC1, CHR 0xC2, CHR 0xC3, CHR 0xC4,
      CHR 0xC5, CHR 0xC6, CHR 0xC7, CHR 0xC8, CHR 0xC9, CHR 0xCA, CHR 0xCB,
      CHR 0xCC, CHR 0xCD, CHR 0xCE, CHR 0xCF, CHR 0xD0, CHR 0xD1, CHR 0xD2,
      CHR 0xD3, CHR 0xD4, CHR 0xD5, CHR 0xD6, CHR 0xD8, CHR 0xD9, CHR 0xDA,
      CHR 0xDB, CHR 0xDC, CHR 0xDD, CHR 0xDE, CHR 0xDF, CHR 0xE0, CHR 0xE1,
      CHR 0xE2, CHR 0xE3, CHR 0xE4, CHR 0xE5, CHR 0xE6, CHR 0xE7, CHR 0xE8,
      CHR 0xE9, CHR 0xEA, CHR 0xEB, CHR 0xEC, CHR 0xED, CHR 0xEE, CHR 0xEF,
      CHR 0xF0, CHR 0xF1, CHR 0xF2, CHR 0xF3, CHR 0xF4, CHR 0xF5, CHR 0xF6,
      CHR 0xF8, CHR 0xF9, CHR 0xFA, CHR 0xFB, CHR 0xFC, CHR 0xFD, CHR 0xFE,
      CHR 0xFF]"

definition lower_char :: "char \<Rightarrow> char" where
  "lower_char c =
     (case map_of (zip (ascii_uppercase @ latin1_uppercase)
                       (ascii_lowercase @ latin1_lowercase)) c of
        Some l \<Rightarrow> l | None \<Rightarrow> c)"

text \<open>\<^verbatim>\<open>s.lower()\<close>\<close>
definition lower :: "string \<Rightarrow> string" where
  "lower s = map lower_char s"

text \<open>\<^verbatim>\<open>c.isascii() and c.isalpha()\<close>, \<^verbatim>\<open>c.isalnum()\<close>, \<^verbatim>\<open>c.isspace()\<close> on one character\<close>
definition isalpha :: "char \<Rightarrow> bool" where
  "isalpha c = (c \<in> set (ascii_lowercase @ ascii_uppercase))"

definition isalnum :: "char \<Rightarrow> bool" where
  "isalnum c =
     (c \<in> set (ascii_lowercase @ ascii_uppercase @ ascii_digits @ latin1_alnum))"

definition isspace :: "char \<Rightarrow> bool" where
  "isspace c =
     (c \<in> set [CHR 0x09, CHR 0x0A, CHR 0x0B, CHR 0x0C, CHR 0x0D,
                CHR 0x1C, CHR 0x1D, CHR 0x1E, CHR 0x1F, CHR 0x20,
                CHR 0x85, CHR 0xA0])"

text \<open>\<^verbatim>\<open>s.strip()\<close>\<close>
definition strip :: "string \<Rightarrow> string" where
  "strip s = rev (dropWhile isspace (rev (dropWhile isspace s)))"

text \<open>\<^verbatim>\<open>s.rstrip("/")\<close>\<close>
definition rstrip_slash :: "string \<Rightarrow> string" where
  "rstrip_slash s = rev (dropWhile (\<lambda>c. c = CHR ''/'') (rev s))"

text \<open>\<^verbatim>\<open>s.replace(".", "-")\<close>\<close>
definition replace_dots :: "string \<Rightarrow> string" where
  "replace_dots s = map (\<lambda>c. if c = CHR ''.'' then CHR ''-'' else c) s"

text \<open>\<^verbatim>\<open>sub in s\<close>\<close>
fun contains :: "string \<Rightarrow> string \<Rightarrow> bool" where
  "contains sub [] = (sub = [])"
| "contains sub (c # cs) = (take (length sub) (c # cs) = sub \<or> contains sub cs)"

text \<open>\<^verbatim>\<open>s.split(sep)\<close> for a one-character separator\<close>
fun split_on :: "char \<Rightarrow> string \<Rightarrow> string list" where
  "split_on sep [] = [[]]"
| "split_on sep (c # cs) =
     (if c = sep then [] # split_on sep cs
      else (case split_on sep cs of [] \<Rightarrow> [[c]] | w # ws \<Rightarrow> (c # w) # ws))"

text \<open>\<^verbatim>\<open>sep.join(parts)\<close>\<close>
fun join :: "string \<Rightarrow> string list \<Rightarrow> string" where
  "join sep [] = []"
| "join sep [p] = p"
| "join sep (p # q # ps) = p @ sep @ join sep (q # ps)"

text \<open>\<^verbatim>\<open>str(n)\<close> for an integer\<close>
definition digit_char :: "int \<Rightarrow> char" where
  "digit_char d =
     (case map_of (zip [0, 1, 2, 3, 4, 5, 6, 7, 8, 9] ascii_digits) d of
        Some c \<Rightarrow> c | None \<Rightarrow> CHR ''?'')"

function str_digits :: "int \<Rightarrow> string" where
  "str_digits i =
     (if i < 10 then [digit_char i]
      else str_digits (i div 10) @ [digit_char (i mod 10)])"
  by pat_completeness auto
termination
  by (relation "measure nat") auto

definition str_int :: "int \<Rightarrow> string" where
  "str_int i = (if i < 0 then CHR ''-'' # str_digits (- i) else str_digits i)"

text \<open>\<^verbatim>\<open>list(dict.fromkeys(xs))\<close>: the first occurrence of every element, in order\<close>
definition dict_fromkeys :: "'a list \<Rightarrow> 'a list" where
  "dict_fromkeys xs = rev (remdups (rev xs))"

text \<open>Truthiness of \<^verbatim>\<open>Optional[str]\<close> and \<^verbatim>\<open>Optional[int]\<close> values\<close>
definition truthy_str :: "string option \<Rightarrow> bool" where
  "truthy_str v = (case v of None \<Rightarrow> False | Some s \<Rightarrow> s \<noteq> [])"

definition truthy_int :: "int option \<Rightarrow> bool" where
  "truthy_int v = (case v of None \<Rightarrow> False | Some i \<Rightarrow> i \<noteq> 0)"

text \<open>\<^verbatim>\<open>d.get(k)\<close> on a key whose value may be \<^verbatim>\<open>null\<close>: an absent key and a
  \<^verbatim>\<open>null\<close> both read as \<^verbatim>\<open>None\<close>\<close>
definition get_opt :: "'a option option \<Rightarrow> 'a option" where
  "get_opt f = (case f of None \<Rightarrow> None | Some v \<Rightarrow> v)"

section \<open>Domain Normalizer\<close>

text \<open>
  \<^verbatim>\<open>urlparse(url).hostname\<close> of the standard library (\<^verbatim>\<open>urllib.parse\<close>): leading C0
  control characters and spaces are dropped, tab, CR and LF are removed, a leading
  scheme is split off, the network location is what follows \<^verbatim>\<open>//\<close> up to the first
  of \<^verbatim>\<open>/ ? #\<close>, and the host is what remains of it after the user information and
  before the port. Unbalanced brackets raise \<^verbatim>\<open>ValueError\<close>. The library's check of
  the compatibility-normalized network location never raises on code points below
  256; its further check that a bracketed host is an IP literal is outside this
  model, which takes the bracketed text as the host.
\<close>

definition scheme_chars :: string where
  "scheme_chars = ascii_lowercase @ ascii_uppercase @ ascii_digits @ ''+-.''"

definition after_last :: "char \<Rightarrow> string \<Rightarrow> string" where
  "after_last c s = rev (takeWhile (\<lambda>x. x \<noteq> c) (rev s))"

definition urlparse_netloc :: "string \<Rightarrow> string" where
  "urlparse_netloc url =
     (let u1 = dropWhile (\<lambda>c. (of_char c :: nat) \<le> 32) url;
          u2 = filter (\<lambda>c. c \<notin> set [CHR 0x09, CHR 0x0D, CHR 0x0A]) u1;
          pre = takeWhile (\<lambda>c. c \<noteq> CHR '':'') u2;
          u3 = (if CHR '':'' \<in> set u2 \<and> pre \<noteq> [] \<and> isalpha (hd pre)
                   \<and> list_all (\<lambda>c. c \<in> set scheme_chars) pre
                then drop (Suc (length pre)) u2 else u2)
      in if take 2 u3 = ''//''
         then takeWhile (\<lambda>c. c \<notin> set ''/?#'') (drop 2 u3) else [])"

definition urlparse_hostname :: "string \<Rightarrow> exn + string option" where
  "urlparse_hostname url =
     (let netloc = urlparse_netloc url in
      if (CHR ''['' \<in> set netloc) \<noteq> (CHR '']'' \<in> set netloc)
      then Inl (ValueError ''Invalid IPv6 URL'')
      else
        let hostinfo = after_last CHR ''@'' netloc;
            hostname =
              (if CHR ''['' \<in> set hostinfo
               then takeWhile (\<lambda>c. c \<noteq> CHR '']'')
                      (drop 1 (dropWhile (\<lambda>c. c \<noteq> CHR ''['') hostinfo))
               else takeWhile (\<lambda>c. c \<noteq> CHR '':'') hostinfo)
        in if hostname = [] then Inr None
           else Inr (Some (lower (takeWhile (\<lambda>c. c \<noteq> CHR ''%'') hostname)
                           @ dropWhile (\<lambda>c. c \<noteq> CHR ''%'') hostname)))"

text \<open>\<^verbatim>\<open>_normalize_domain\<close>\<close>
definition normalize_domain :: "string \<Rightarrow> exn + string" where
  "normalize_domain domain =
     (if domain = [] then Inl (ValueError ''domain required'')
      else
        let candidate = strip domain;
            candidate = (if \<not> contains ''//'' candidate then ''http://'' @ candidate
                         else candidate)
        in case urlparse_hostname candidate of
             Inl e \<Rightarrow> Inl e
           | Inr None \<Rightarrow>
               Inl (ValueError (''invalid domain '' @ [CHR 0x27] @ domain @ [CHR 0x27]))
           | Inr (Some host) \<Rightarrow> Inr (lower host))"

text \<open>\<^verbatim>\<open>_normalize_domains\<close>: entries that raise \<^verbatim>\<open>ValueError\<close> are skipped\<close>
definition normalize_domains :: "string list \<Rightarrow> string list" where
  "normalize_domains domains =
     (let cleaned =
            List.map_filter
              (\<lambda>item. case normalize_domain item of Inl e \<Rightarrow> None | Inr n \<Rightarrow> Some n)
              domains
      in dict_fromkeys (sort cleaned))"

text \<open>\<^verbatim>\<open>_slugify\<close>; \<open>now\<close> is the value of \<^verbatim>\<open>int(time.time())\<close> at the call\<close>
definition slugify :: "int \<Rightarrow> string \<Rightarrow> string" where
  "slugify now name =
     (let slug = map (\<lambda>c. if isalnum c then c else CHR ''-'') (lower name);
          parts = filter (\<lambda>segment. segment \<noteq> []) (split_on CHR ''-'' slug);
          joined = join ''-'' parts
      in if joined \<noteq> [] then joined else ''agent-'' @ str_int now)"

section \<open>Data model\<close>

text \<open>
  The state document is the JSON object the program itself writes. Every dictionary
  is a record of optional fields: \<open>None\<close> is an absent key. A key whose value is
  declared \<^verbatim>\<open>Optional[...]\<close> in the request models has an option as its value, so
  that \<open>Some None\<close> is a key holding \<^verbatim>\<open>null\<close>. Values have the types the request
  models declare.
\<close>

record domain_history =
  h_action :: string
  h_at :: string
  h_target :: "string option"

record domain_record =
  d_domain :: "string option"
  d_id :: "string option"
  d_created_at :: "string option"
  d_history :: "domain_history list option"
  d_target_service :: "string option option"
  d_target_port :: "int option option"
  d_target_scheme :: "string option"
  d_target_url :: "string option option"
  d_entrypoint :: "string option"
  d_auto_ssl :: "bool option"
  d_redirect_to_https :: "bool option"
  d_notes :: "string option option"
  d_updated_at :: "string option"
  d_service_name :: "string option option"
  d_router_name :: "string option"

record agent_history =
  ah_action :: string
  ah_at :: string

record agent_record =
  a_created_at :: "string option"
  a_history :: "agent_history list option"
  a_name :: "string option"
  a_slug :: "string option"
  a_role :: "string option"
  a_rights :: "string option"
  a_status :: "string option"
  a_endpoint :: "string option option"
  a_capabilities :: "string list option"
  a_domains :: "string list option"
  a_updated_at :: "string option"

record storage_profile =
  s_created_at :: "string option"
  s_storage_engine :: "string option"
  s_primary_region :: "string option"
  s_replicas :: "int option"
  s_retention_days :: "int option"
  s_backup_regions :: "string list option"
  s_analytics :: "bool option"
  s_encryption :: "bool option"
  s_notes :: "string option option"
  s_status :: "string option"
  s_updated_at :: "string option"

text \<open>The \<^verbatim>\<open>storage\<close> dictionary; the program uses its key \<^verbatim>\<open>date_app\<close> only.\<close>
record storage_dict =
  date_app :: "storage_profile option"

record meta_dict =
  m_created_at :: "string option"
  m_updated_at :: "string option"
  m_revision :: "int option"
  m_domain_count :: "int option"
  m_agent_count :: "int option"
  m_date_storage_status :: "string option"

text \<open>The \<^verbatim>\<open>agents\<close> dictionary is an association list in insertion order.\<close>
record state =
  st_meta :: "meta_dict option"
  st_domains :: "domain_record list option"
  st_storage :: "storage_dict option"
  st_agents :: "(string \<times> agent_record) list option"

definition empty_meta :: meta_dict where
  "empty_meta = \<lparr>m_created_at = None, m_updated_at = None, m_revision = None,
     m_domain_count = None, m_agent_count = None, m_date_storage_status = None\<rparr>"

definition empty_profile :: storage_profile where
  "empty_profile = \<lparr>s_created_at = None, s_storage_engine = None,
     s_primary_region = None, s_replicas = None, s_retention_days = None,
     s_backup_regions = None, s_analytics = None, s_encryption = None, s_notes = None,
     s_status = None, s_updated_at = None\<rparr>"

definition empty_agent :: agent_record where
  "empty_agent = \<lparr>a_created_at = None, a_history = None, a_name = None, a_slug = None,
     a_role = None, a_rights = None, a_status = None, a_endpoint = None,
     a_capabilities = None, a_domains = None, a_updated_at = None\<rparr>"

definition empty_domain :: domain_record where
  "empty_domain = \<lparr>d_domain = None, d_id = None, d_created_at = None, d_history = None,
     d_target_service = None, d_target_port = None, d_target_scheme = None,
     d_target_url = None, d_entrypoint = None, d_auto_ssl = None,
     d_redirect_to_https = None, d_notes = None, d_updated_at = None,
     d_service_name = None, d_router_name = None\<rparr>"

text \<open>\<^verbatim>\<open>SERVICE_DEFAULT_PORTS\<close> and \<^verbatim>\<open>SERVICE_DEFAULT_PORTS.get(service, default)\<close>\<close>
definition SERVICE_DEFAULT_PORTS :: "(string \<times> int) list" where
  "SERVICE_DEFAULT_PORTS =
     [(''twinboss_api'', 9000), (''fastmcp'', 8080), (''mcpjungle'', 4000),
      (''docker_mcp'', 8090)]"

definition default_port :: "string option \<Rightarrow> int \<Rightarrow> int" where
  "default_port service dflt =
     (case service of
        None \<Rightarrow> dflt
      | Some name \<Rightarrow>
          (case map_of SERVICE_DEFAULT_PORTS name of None \<Rightarrow> dflt | Some p \<Rightarrow> p))"

section \<open>State Store\<close>

text \<open>
  What a call reads from outside the repository: the configured API key, the clock
  (one reading of \<^verbatim>\<open>_now_iso()\<close> by the request handler, one by \<^verbatim>\<open>_default_state\<close>
  and one by \<^verbatim>\<open>update_state\<close>; \<^verbatim>\<open>int(time.time())\<close> for \<^verbatim>\<open>_slugify\<close>), and the
  digest \<^verbatim>\<open>hashlib.blake2s(s.encode("utf-8"), digest_size=6).hexdigest()\<close>.
\<close>

record env =
  API_KEY :: string
  now_handler :: string
  now_default :: string
  now_update :: string
  unix_time :: int
  blake2s_hex :: "string \<Rightarrow> string"

text \<open>
  The state file: absent, present with a content on which opening it and
  \<^verbatim>\<open>json.load\<close> raise the given exception, or present holding a document. The
  second file is the generated routing artifact.
\<close>

datatype state_file = Missing | Corrupt exn | Stored state

record world =
  w_state_file :: state_file
  w_traefik :: "string option"

text \<open>\<^verbatim>\<open>_default_state\<close>\<close>
definition default_state :: "string \<Rightarrow> state" where
  "default_state now =
     \<lparr>st_meta = Some (empty_meta\<lparr>m_created_at := Some now, m_updated_at := Some now,
                                 m_revision := Some 0\<rparr>),
      st_domains = Some [],
      st_storage = Some \<lparr>date_app =
        Some (empty_profile\<lparr>s_status := Some ''uninitialized'', s_updated_at := Some now\<rparr>)\<rparr>,
      st_agents = Some []\<rparr>"

text \<open>\<^verbatim>\<open>_write_state_unlocked\<close>: the write and the replace are taken to succeed.\<close>
definition write_state_unlocked :: "state \<Rightarrow> world \<Rightarrow> world" where
  "write_state_unlocked st w = w\<lparr>w_state_file := Stored st\<rparr>"

text \<open>\<^verbatim>\<open>_read_state_unlocked\<close>: only \<^verbatim>\<open>JSONDecodeError\<close> and \<^verbatim>\<open>OSError\<close> are caught.\<close>
definition read_state_unlocked :: "string \<Rightarrow> world \<Rightarrow> (exn + state) \<times> world" where
  "read_state_unlocked now w =
     (case w_state_file w of
        Missing \<Rightarrow> (Inr (default_state now), w)
      | Stored st \<Rightarrow> (Inr st, w)
      | Corrupt e \<Rightarrow>
          if e = JSONDecodeError \<or> e = OSError
          then (let st = default_state now in (Inr st, write_state_unlocked st w))
          else (Inl e, w))"

text \<open>\<^verbatim>\<open>_ensure_state_file\<close>, run once at start-up: here every exception of the read
  is caught (\<^verbatim>\<open>except Exception\<close>).\<close>
definition ensure_state_file :: "string \<Rightarrow> world \<Rightarrow> world" where
  "ensure_state_file now w =
     (if w_state_file w = Missing then write_state_unlocked (default_state now) w
      else
        (case read_state_unlocked now w of
           (Inl x, w1) \<Rightarrow> write_state_unlocked (default_state now) w1
         | (Inr st, w1) \<Rightarrow> w1))"

text \<open>\<^verbatim>\<open>read_state\<close>\<close>
definition read_state :: "env \<Rightarrow> world \<Rightarrow> (exn + state) \<times> world" where
  "read_state e w = read_state_unlocked (now_default e) w"

text \<open>The bookkeeping of \<^verbatim>\<open>update_state\<close> after the mutator has run\<close>
definition refresh_meta :: "string \<Rightarrow> state \<Rightarrow> state" where
  "refresh_meta ts st =
     (let meta = (case st_meta st of None \<Rightarrow> empty_meta | Some m \<Rightarrow> m);
          meta = (case m_created_at meta of
                    None \<Rightarrow> meta\<lparr>m_created_at := Some ts\<rparr> | Some c \<Rightarrow> meta);
          meta = meta\<lparr>m_updated_at := Some ts\<rparr>;
          meta = meta\<lparr>m_revision :=
                   Some ((case m_revision meta of None \<Rightarrow> 0 | Some r \<Rightarrow> r) + 1)\<rparr>;
          meta = meta\<lparr>m_domain_count :=
                   Some (int (length (case st_domains st of None \<Rightarrow> [] | Some ds \<Rightarrow> ds)))\<rparr>;
          meta = meta\<lparr>m_agent_count :=
                   Some (int (length (case st_agents st of None \<Rightarrow> [] | Some ags \<Rightarrow> ags)))\<rparr>;
          storage = (case st_storage st of
                       None \<Rightarrow> empty_profile
                     | Some sd \<Rightarrow> (case date_app sd of None \<Rightarrow> empty_profile | Some p \<Rightarrow> p));
          meta = meta\<lparr>m_date_storage_status :=
                   Some (case s_status storage of None \<Rightarrow> ''uninitialized'' | Some x \<Rightarrow> x)\<rparr>
      in st\<lparr>st_meta := Some meta\<rparr>)"

text \<open>
  \<^verbatim>\<open>update_state\<close>: the mutator returns the mutated document and its result; an
  exception of the mutator leaves the function before the document is written.
\<close>
definition update_state ::
  "env \<Rightarrow> (state \<Rightarrow> exn + state \<times> 'r) \<Rightarrow> world \<Rightarrow> (exn + state \<times> 'r) \<times> world" where
  "update_state e mutator w =
     (case read_state_unlocked (now_default e) w of
        (Inl x, w1) \<Rightarrow> (Inl x, w1)
      | (Inr st, w1) \<Rightarrow>
          (case mutator st of
             Inl x \<Rightarrow> (Inl x, w1)
           | Inr (st1, result) \<Rightarrow>
               (let st2 = refresh_meta (now_update e) st1
                in (Inr (st2, result), write_state_unlocked st2 w1))))"

section \<open>Dynamic Configuration Generator\<close>

text \<open>\<^verbatim>\<open>a or b\<close> for an optional string and a string\<close>
definition or_str :: "string option \<Rightarrow> string \<Rightarrow> string" where
  "or_str v dflt = (case v of None \<Rightarrow> dflt | Some s \<Rightarrow> if s = [] then dflt else s)"

text \<open>An optional string inside an f-string\<close>
definition str_opt :: "string option \<Rightarrow> string" where
  "str_opt v = (case v of None \<Rightarrow> ''None'' | Some s \<Rightarrow> s)"

text \<open>
  \<^verbatim>\<open>service_urls\<close>, a dictionary from service names to sets of URLs: an association
  list in insertion order whose values are duplicate-free lists.
  \<open>add_url\<close> is \<^verbatim>\<open>service_urls.setdefault(service_name, set()).add(url)\<close>.
\<close>
type_synonym service_urls = "(string \<times> string list) list"

definition add_url :: "string \<Rightarrow> string \<Rightarrow> service_urls \<Rightarrow> service_urls" where
  "add_url service_name url su =
     (case map_of su service_name of
        None \<Rightarrow> su @ [(service_name, [url])]
      | Some urls \<Rightarrow>
          AList.update service_name (if url \<in> set urls then urls else urls @ [url]) su)"

definition router_name_of :: "domain_record \<Rightarrow> string \<Rightarrow> string" where
  "router_name_of entry domain = or_str (d_router_name entry) (replace_dots domain)"

definition service_name_of :: "domain_record \<Rightarrow> string \<Rightarrow> string" where
  "service_name_of entry router_name =
     or_str (get_opt (d_service_name entry))
       (or_str (get_opt (d_target_service entry))
          (''svc-'' @ (case d_id entry of None \<Rightarrow> router_name | Some i \<Rightarrow> i)))"

definition entrypoint_of :: "domain_record \<Rightarrow> string" where
  "entrypoint_of entry =
     or_str (d_entrypoint entry)
       (if d_auto_ssl entry = Some True then ''websecure'' else ''web'')"

definition backend_url :: "domain_record \<Rightarrow> string" where
  "backend_url entry =
     (let target_url = get_opt (d_target_url entry) in
      if truthy_str target_url then rstrip_slash (str_opt target_url)
      else
        let scheme = (case d_target_scheme entry of None \<Rightarrow> ''http'' | Some x \<Rightarrow> x);
            service_host =
              (case d_target_service entry of None \<Rightarrow> Some ''twinboss_api'' | Some v \<Rightarrow> v);
            port = (case get_opt (d_target_port entry) of
                      None \<Rightarrow> default_port service_host 80
                    | Some p \<Rightarrow> if p = 0 then default_port service_host 80 else p)
        in scheme @ ''://'' @ str_opt service_host @ '':'' @ str_int port)"

text \<open>The lines one record adds to the routers block\<close>
definition router_lines :: "domain_record \<Rightarrow> string \<Rightarrow> string list" where
  "router_lines entry domain =
     (let router_name = router_name_of entry domain;
          service_name = service_name_of entry router_name;
          entrypoint = entrypoint_of entry
      in [''    '' @ router_name @ '':'',
          ''      rule: Host(`'' @ domain @ ''`)'',
          ''      entryPoints:'',
          ''        - '' @ entrypoint,
          ''      service: '' @ service_name]
         @ (if d_redirect_to_https entry = Some True \<and> entrypoint \<noteq> ''websecure''
            then [''      middlewares:'', ''        - redirect-to-https''] else []))"

text \<open>
  The loop over the records; its state is the lines written so far, the flag
  \<^verbatim>\<open>routers_written\<close> and \<^verbatim>\<open>service_urls\<close>. A record without a host name is
  skipped.
\<close>
fun routers_loop ::
  "domain_record list \<Rightarrow> string list \<times> bool \<times> service_urls
     \<Rightarrow> string list \<times> bool \<times> service_urls" where
  "routers_loop [] acc = acc"
| "routers_loop (entry # rest) (lines, routers_written, su) =
     (case d_domain entry of
        None \<Rightarrow> routers_loop rest (lines, routers_written, su)
      | Some domain \<Rightarrow>
          if domain = [] then routers_loop rest (lines, routers_written, su)
          else routers_loop rest
                 (lines @ router_lines entry domain, True,
                  add_url (service_name_of entry (router_name_of entry domain))
                    (backend_url entry) su))"

definition service_lines :: "service_urls \<Rightarrow> string list" where
  "service_lines su =
     (if su \<noteq> []
      then concat (map (\<lambda>(service_name, urls).
             [''    '' @ service_name @ '':'', ''      loadBalancer:'', ''        servers:'']
             @ map (\<lambda>url. ''          - url: '' @ [CHR 0x22] @ url @ [CHR 0x22]) (sort urls))
           (sort_key fst su))
      else [''    noop:'', ''      loadBalancer:'', ''        servers:'',
            ''          - url: '' @ [CHR 0x22] @ ''http://127.0.0.1:9000'' @ [CHR 0x22]])"

text \<open>The list \<^verbatim>\<open>lines\<close> of \<^verbatim>\<open>_write_domain_dynamic_config\<close>\<close>
definition config_lines :: "domain_record list \<Rightarrow> string list" where
  "config_lines domains =
     (let middleware_needed = list_ex (\<lambda>d. d_redirect_to_https d = Some True) domains;
          lines = [''http:''];
          lines = (if middleware_needed
                   then lines @ [''  middlewares:'', ''    redirect-to-https:'',
                                 ''      redirectScheme:'', ''        scheme: https'',
                                 ''        permanent: true'']
                   else lines);
          lines = lines @ [''  routers:'']
      in case routers_loop domains (lines, False, []) of
           (lines, routers_written, su) \<Rightarrow>
             (if \<not> routers_written
              then lines @ [''    placeholder:'', ''      rule: HostRegexp(`{any:.+}`)'',
                            ''      service: noop'']
              else lines)
             @ [''  services:''] @ service_lines su)"

text \<open>The text written: \<^verbatim>\<open>"\n".join(lines) + "\n"\<close>\<close>
definition config_text :: "domain_record list \<Rightarrow> string" where
  "config_text domains = join [CHR 0x0A] (config_lines domains) @ [CHR 0x0A]"

text \<open>\<^verbatim>\<open>_write_domain_dynamic_config\<close>\<close>
definition write_domain_dynamic_config :: "domain_record list \<Rightarrow> world \<Rightarrow> world" where
  "write_domain_dynamic_config domains w = w\<lparr>w_traefik := Some (config_text domains)\<rparr>"

section \<open>Mutation operations\<close>

text \<open>
  The request models, with the defaults they declare. The notification sink
  \<^verbatim>\<open>publish\<close> is an external collaborator and is left out of the model.
\<close>

record DomainHostRequest =
  dh_domain :: string
  dh_target_service :: "string option"
  dh_target_port :: "int option"
  dh_target_scheme :: string
  dh_target_url :: "string option"
  dh_entrypoint :: string
  dh_auto_ssl :: bool
  dh_redirect_to_https :: bool
  dh_notes :: "string option"

definition DomainHostRequest_default :: "string \<Rightarrow> DomainHostRequest" where
  "DomainHostRequest_default domain =
     \<lparr>dh_domain = domain, dh_target_service = None, dh_target_port = None,
      dh_target_scheme = ''http'', dh_target_url = None, dh_entrypoint = ''web'',
      dh_auto_ssl = True, dh_redirect_to_https = True, dh_notes = None\<rparr>"

record DateStorageRequest =
  ds_storage_engine :: string
  ds_primary_region :: string
  ds_replicas :: int
  ds_retention_days :: int
  ds_backup_regions :: "string list"
  ds_analytics :: bool
  ds_encryption :: bool
  ds_notes :: "string option"

definition DateStorageRequest_default :: DateStorageRequest where
  "DateStorageRequest_default =
     \<lparr>ds_storage_engine = ''postgres'', ds_primary_region = ''us-east-1'',
      ds_replicas = 1, ds_retention_days = 365, ds_backup_regions = [],
      ds_analytics = False, ds_encryption = True, ds_notes = None\<rparr>"

record AgentRegistration =
  ar_name :: string
  ar_role :: string
  ar_rights :: string
  ar_status :: string
  ar_endpoint :: "string option"
  ar_capabilities :: "string list"
  ar_domains :: "string list"

definition AgentRegistration_default :: "string \<Rightarrow> AgentRegistration" where
  "AgentRegistration_default name =
     \<lparr>ar_name = name, ar_role = ''generalist'', ar_rights = ''member'',
      ar_status = ''active'', ar_endpoint = None, ar_capabilities = [], ar_domains = []\<rparr>"

record AgentCreate =
  ac_name :: string

text \<open>\<^verbatim>\<open>auth\<close>: the exception raised, if any\<close>
definition auth :: "env \<Rightarrow> string option \<Rightarrow> exn option" where
  "auth e x_api_key =
     (if API_KEY e \<noteq> [] \<and> x_api_key \<noteq> Some (API_KEY e)
      then Some (HTTPException 401 ''unauthorized'') else None)"

subsection \<open>\<^verbatim>\<open>host_domain\<close>\<close>

text \<open>\<^verbatim>\<open>next((d for d in domains if p(d)), None)\<close> is \<^const>\<open>find\<close>; the record found
  is updated in place, which \<open>replace_first\<close> does in the list.\<close>
fun replace_first :: "('a \<Rightarrow> bool) \<Rightarrow> 'a \<Rightarrow> 'a list \<Rightarrow> 'a list" where
  "replace_first p y [] = []"
| "replace_first p y (x # xs) = (if p x then y # xs else x # replace_first p y xs)"

text \<open>\<^verbatim>\<open>domains.sort(key=lambda item: item["domain"])\<close>: a stable sort; a record
  without the key raises \<^verbatim>\<open>KeyError\<close>.\<close>
definition hostname_key :: "domain_record \<Rightarrow> string" where
  "hostname_key item = (case d_domain item of None \<Rightarrow> [] | Some h \<Rightarrow> h)"

definition sort_by_domain :: "domain_record list \<Rightarrow> exn + domain_record list" where
  "sort_by_domain domains =
     (if list_ex (\<lambda>item. d_domain item = None) domains then Inl (KeyError ''domain'')
      else Inr (sort_key hostname_key domains))"

text \<open>
  The record \<^verbatim>\<open>entry\<close> of the mutator of \<^verbatim>\<open>host_domain\<close>, after all its
  assignments; \<open>existing\<close> is the record found for the host name, if any. The list
  holds the very object \<^verbatim>\<open>entry\<close>, so the two assignments the source makes after
  sorting reach the list element; they do not touch the sort key. The value of
  \<^verbatim>\<open>entry["domain"]\<close> there is \<open>normalized\<close>: the record was found under that host
  name or made with it.
\<close>
definition host_domain_entry ::
  "env \<Rightarrow> DomainHostRequest \<Rightarrow> string \<Rightarrow> string option \<Rightarrow> string option
     \<Rightarrow> int option \<Rightarrow> string \<Rightarrow> domain_record option \<Rightarrow> domain_record" where
  "host_domain_entry e payload normalized target_service target_url target_port ts existing =
     (let entry = (case existing of
                     Some d \<Rightarrow> d
                   | None \<Rightarrow> empty_domain
                       \<lparr>d_domain := Some normalized,
                        d_id := Some (blake2s_hex e normalized),
                        d_created_at := Some ts,
                        d_history := Some []\<rparr>);
          entry = entry
            \<lparr>d_target_service := Some target_service,
             d_target_port := Some target_port,
             d_target_scheme := Some (or_str (Some (dh_target_scheme payload)) ''http''),
             d_target_url := Some target_url,
             d_entrypoint := Some (or_str (Some (dh_entrypoint payload))
                (if dh_auto_ssl payload then ''websecure'' else ''web'')),
             d_auto_ssl := Some (dh_auto_ssl payload),
             d_redirect_to_https := Some (dh_redirect_to_https payload),
             d_notes := Some (dh_notes payload),
             d_updated_at := Some ts\<rparr>;
          history = (case d_history entry of None \<Rightarrow> [] | Some h \<Rightarrow> h);
          entry = entry\<lparr>d_history := Some (history @
            [\<lparr>h_action = (if existing = None then ''provisioned'' else ''updated''),
              h_at = ts,
              h_target = (if truthy_str target_service then target_service
                          else target_url)\<rparr>])\<rparr>;
          entry = entry\<lparr>d_service_name :=
            Some (if truthy_str (get_opt (d_target_service entry))
                  then get_opt (d_target_service entry)
                  else get_opt (d_service_name entry))\<rparr>
      in entry\<lparr>d_router_name :=
            Some (or_str (d_router_name entry) (replace_dots normalized))\<rparr>)"

text \<open>\<^verbatim>\<open>state.get("domains", [])\<close>, which is also what \<^verbatim>\<open>state.setdefault("domains", [])\<close>
  returns\<close>
definition domains_of :: "state \<Rightarrow> domain_record list" where
  "domains_of st = (case st_domains st of None \<Rightarrow> [] | Some ds \<Rightarrow> ds)"

text \<open>\<^verbatim>\<open>state.setdefault("agents", {})\<close>\<close>
definition agents_of :: "state \<Rightarrow> (string \<times> agent_record) list" where
  "agents_of st = (case st_agents st of None \<Rightarrow> [] | Some ags \<Rightarrow> ags)"

text \<open>The mutator of \<^verbatim>\<open>host_domain\<close>\<close>
definition host_domain_mut ::
  "env \<Rightarrow> DomainHostRequest \<Rightarrow> string \<Rightarrow> string option \<Rightarrow> string option
     \<Rightarrow> int option \<Rightarrow> string \<Rightarrow> state \<Rightarrow> exn + state \<times> domain_record" where
  "host_domain_mut e payload normalized target_service target_url target_port ts st =
     (let domains = domains_of st;
          existing = find (\<lambda>d. d_domain d = Some normalized) domains;
          entry = host_domain_entry e payload normalized target_service target_url
                    target_port ts existing;
          domains = (if existing = None then domains @ [entry]
                     else replace_first (\<lambda>d. d_domain d = Some normalized) entry domains)
      in case sort_by_domain domains of
           Inl x \<Rightarrow> Inl x
         | Inr sorted_domains \<Rightarrow> Inr (st\<lparr>st_domains := Some sorted_domains\<rparr>, entry))"

text \<open>The revision a handler returns: \<^verbatim>\<open>state.get("meta", {}).get("revision")\<close>\<close>
definition revision_of :: "state \<Rightarrow> int option" where
  "revision_of st = (case st_meta st of None \<Rightarrow> None | Some m \<Rightarrow> m_revision m)"

text \<open>The values \<^verbatim>\<open>target_url\<close> and \<^verbatim>\<open>target_port\<close> that \<^verbatim>\<open>host_domain\<close> computes from
  the request before it enters the mutator\<close>
definition host_target_url :: "DomainHostRequest \<Rightarrow> string option" where
  "host_target_url payload =
     (if truthy_str (dh_target_url payload)
      then Some (rstrip_slash (str_opt (dh_target_url payload))) else None)"

definition host_target_port :: "DomainHostRequest \<Rightarrow> int option" where
  "host_target_port payload =
     (if truthy_str (dh_target_service payload)
      then Some (if truthy_int (dh_target_port payload)
                 then (case dh_target_port payload of Some p \<Rightarrow> p | None \<Rightarrow> 0)
                 else default_port (dh_target_service payload) 80)
      else dh_target_port payload)"

definition host_domain ::
  "env \<Rightarrow> string option \<Rightarrow> DomainHostRequest \<Rightarrow> world
     \<Rightarrow> (exn + domain_record \<times> int option) \<times> world" where
  "host_domain e x_api_key payload w =
     (case auth e x_api_key of
        Some x \<Rightarrow> (Inl x, w)
      | None \<Rightarrow>
          if \<not> truthy_str (dh_target_service payload) \<and> \<not> truthy_str (dh_target_url payload)
          then (Inl (HTTPException 400 ''target_service or target_url is required''), w)
          else
            (case normalize_domain (dh_domain payload) of
               Inl (ValueError msg) \<Rightarrow> (Inl (HTTPException 400 msg), w)
             | Inl x \<Rightarrow> (Inl x, w)
             | Inr normalized \<Rightarrow>
                 (case update_state e
                         (host_domain_mut e payload normalized (dh_target_service payload)
                            (host_target_url payload) (host_target_port payload)
                            (now_handler e)) w of
                    (Inl x, w1) \<Rightarrow> (Inl x, w1)
                  | (Inr (st, rec), w1) \<Rightarrow>
                      (Inr (rec, revision_of st),
                       write_domain_dynamic_config (domains_of st) w1))))"

subsection \<open>\<^verbatim>\<open>setup_date_storage\<close>\<close>

text \<open>\<^verbatim>\<open>storage.get("date_app") or {"created_at": ts}\<close>: an empty dictionary is falsy.\<close>
definition setup_date_storage_mut ::
  "DateStorageRequest \<Rightarrow> string \<Rightarrow> state \<Rightarrow> exn + state \<times> storage_profile" where
  "setup_date_storage_mut payload ts st =
     (let storage = (case st_storage st of None \<Rightarrow> \<lparr>date_app = None\<rparr> | Some sd \<Rightarrow> sd);
          fresh = empty_profile\<lparr>s_created_at := Some ts\<rparr>;
          record = (case date_app storage of
                      None \<Rightarrow> fresh
                    | Some p \<Rightarrow> if p = empty_profile then fresh else p);
          record = record
            \<lparr>s_storage_engine := Some (ds_storage_engine payload),
             s_primary_region := Some (ds_primary_region payload),
             s_replicas := Some (ds_replicas payload),
             s_retention_days := Some (ds_retention_days payload),
             s_backup_regions := Some (ds_backup_regions payload),
             s_analytics := Some (ds_analytics payload),
             s_encryption := Some (ds_encryption payload),
             s_notes := Some (ds_notes payload),
             s_status := Some ''ready'',
             s_updated_at := Some ts\<rparr>
      in Inr (st\<lparr>st_storage := Some (storage\<lparr>date_app := Some record\<rparr>)\<rparr>, record))"

definition setup_date_storage ::
  "env \<Rightarrow> string option \<Rightarrow> DateStorageRequest \<Rightarrow> world
     \<Rightarrow> (exn + storage_profile \<times> int option) \<times> world" where
  "setup_date_storage e x_api_key payload w =
     (case auth e x_api_key of
        Some x \<Rightarrow> (Inl x, w)
      | None \<Rightarrow>
          (case update_state e (setup_date_storage_mut payload (now_handler e)) w of
             (Inl x, w1) \<Rightarrow> (Inl x, w1)
           | (Inr (st, rec), w1) \<Rightarrow> (Inr (rec, revision_of st), w1)))"

subsection \<open>\<^verbatim>\<open>register_agent\<close> and \<^verbatim>\<open>agents_create\<close>\<close>

text \<open>\<^verbatim>\<open>agents.get(slug) or {"created_at": ts, "history": []}\<close>\<close>
definition agent_or_new :: "(string \<times> agent_record) list \<Rightarrow> string \<Rightarrow> string \<Rightarrow> agent_record" where
  "agent_or_new agents slug ts =
     (let fresh = empty_agent\<lparr>a_created_at := Some ts, a_history := Some []\<rparr>
      in case map_of agents slug of
           None \<Rightarrow> fresh
         | Some r \<Rightarrow> if r = empty_agent then fresh else r)"

definition register_agent_mut ::
  "env \<Rightarrow> AgentRegistration \<Rightarrow> string \<Rightarrow> string list \<Rightarrow> string list \<Rightarrow> string
     \<Rightarrow> state \<Rightarrow> exn + state \<times> agent_record" where
  "register_agent_mut e payload name capabilities normalized_domains ts st =
     (let agents = agents_of st;
          slug = slugify (unix_time e) name;
          record = agent_or_new agents slug ts;
          record = record
            \<lparr>a_name := Some name,
             a_slug := Some slug,
             a_role := Some (ar_role payload),
             a_rights := Some (ar_rights payload),
             a_status := Some (ar_status payload),
             a_endpoint := Some (ar_endpoint payload),
             a_capabilities := Some capabilities,
             a_domains := Some normalized_domains,
             a_updated_at := Some ts\<rparr>;
          history = (case a_history record of None \<Rightarrow> [] | Some h \<Rightarrow> h);
          record = record\<lparr>a_history :=
            Some (history @ [\<lparr>ah_action = ''registered'', ah_at = ts\<rparr>])\<rparr>
      in Inr (st\<lparr>st_agents := Some (AList.update slug record agents)\<rparr>, record))"

text \<open>\<^verbatim>\<open>sorted(set(cap.strip().lower() for cap in payload.capabilities if cap.strip()))\<close>\<close>
definition normalized_capabilities :: "string list \<Rightarrow> string list" where
  "normalized_capabilities caps =
     sort (remdups (map (\<lambda>cap. lower (strip cap)) (filter (\<lambda>cap. strip cap \<noteq> []) caps)))"

definition register_agent ::
  "env \<Rightarrow> string option \<Rightarrow> AgentRegistration \<Rightarrow> world \<Rightarrow> (exn + agent_record) \<times> world" where
  "register_agent e x_api_key payload w =
     (case auth e x_api_key of
        Some x \<Rightarrow> (Inl x, w)
      | None \<Rightarrow>
          (let name = strip (ar_name payload) in
           if name = [] then (Inl (HTTPException 400 ''name is required''), w)
           else
             let normalized_domains = normalize_domains (ar_domains payload);
                 capabilities = normalized_capabilities (ar_capabilities payload)
             in case update_state e
                       (register_agent_mut e payload name capabilities normalized_domains
                          (now_handler e)) w of
                  (Inl x, w1) \<Rightarrow> (Inl x, w1)
                | (Inr (st, rec), w1) \<Rightarrow> (Inr rec, w1)))"

definition agents_create_mut ::
  "env \<Rightarrow> string \<Rightarrow> string \<Rightarrow> state \<Rightarrow> exn + state \<times> agent_record" where
  "agents_create_mut e n ts st =
     (let agents = agents_of st;
          slug = slugify (unix_time e) n;
          record = agent_or_new agents slug ts;
          record = record
            \<lparr>a_name := Some n,
             a_slug := Some slug,
             a_rights := Some ''admin'',
             a_role := Some ''generalist'',
             a_status := Some ''ready'',
             a_capabilities :=
               Some (case a_capabilities record of None \<Rightarrow> [] | Some c \<Rightarrow> c),
             a_domains := Some (case a_domains record of None \<Rightarrow> [] | Some d \<Rightarrow> d),
             a_updated_at := Some ts\<rparr>;
          history = (case a_history record of None \<Rightarrow> [] | Some h \<Rightarrow> h);
          record = record\<lparr>a_history :=
            Some (history @ [\<lparr>ah_action = ''ensure-admin'', ah_at = ts\<rparr>])\<rparr>
      in Inr (st\<lparr>st_agents := Some (AList.update slug record agents)\<rparr>, record))"

definition agents_create ::
  "env \<Rightarrow> string option \<Rightarrow> AgentCreate \<Rightarrow> world \<Rightarrow> (exn + agent_record) \<times> world" where
  "agents_create e x_api_key body w =
     (case auth e x_api_key of
        Some x \<Rightarrow> (Inl x, w)
      | None \<Rightarrow>
          (let n = (if strip (ac_name body) \<noteq> [] then strip (ac_name body)
                    else ''agent-'' @ str_int (unix_time e))
           in case update_state e (agents_create_mut e n (now_handler e)) w of
                (Inl x, w1) \<Rightarrow> (Inl x, w1)
              | (Inr (st, rec), w1) \<Rightarrow> (Inr rec, w1)))"

subsection \<open>Sequences of mutation requests\<close>

datatype mutation =
    Host_domain DomainHostRequest
  | Register_agent AgentRegistration
  | Agents_create AgentCreate
  | Setup_storage DateStorageRequest

text \<open>One request: the exception it raises, if any, and the files afterwards\<close>
definition apply_mutation ::
  "env \<times> string option \<times> mutation \<Rightarrow> world \<Rightarrow> exn option \<times> world" where
  "apply_mutation call w =
     (case call of (e, x_api_key, m) \<Rightarrow>
        (case m of
           Host_domain payload \<Rightarrow>
             (case host_domain e x_api_key payload w of
                (Inl x, w1) \<Rightarrow> (Some x, w1) | (Inr r, w1) \<Rightarrow> (None, w1))
         | Register_agent payload \<Rightarrow>
             (case register_agent e x_api_key payload w of
                (Inl x, w1) \<Rightarrow> (Some x, w1) | (Inr r, w1) \<Rightarrow> (None, w1))
         | Agents_create body \<Rightarrow>
             (case agents_create e x_api_key body w of
                (Inl x, w1) \<Rightarrow> (Some x, w1) | (Inr r, w1) \<Rightarrow> (None, w1))
         | Setup_storage payload \<Rightarrow>
             (case setup_date_storage e x_api_key payload w of
                (Inl x, w1) \<Rightarrow> (Some x, w1) | (Inr r, w1) \<Rightarrow> (None, w1))))"

text \<open>Requests issued one after the other: the outcomes in order, and the final files\<close>
fun run_mutations ::
  "(env \<times> string option \<times> mutation) list \<Rightarrow> world \<Rightarrow> exn option list \<times> world" where
  "run_mutations [] w = ([], w)"
| "run_mutations (call # calls) w =
     (case apply_mutation call w of
        (outcome, w1) \<Rightarrow>
          (case run_mutations calls w1 of (outcomes, w2) \<Rightarrow> (outcome # outcomes, w2)))"

text \<open>The revision of the persisted document, if a document is persisted\<close>
definition persisted_revision :: "world \<Rightarrow> int option" where
  "persisted_revision w =
     (case w_state_file w of Stored st \<Rightarrow> revision_of st | Missing \<Rightarrow> None | Corrupt x \<Rightarrow> None)"

section \<open>Observations on the persisted document\<close>

text \<open>The domain records and the agents of the persisted document\<close>
definition stored_domains :: "world \<Rightarrow> domain_record list" where
  "stored_domains w =
     (case w_state_file w of
        Stored st \<Rightarrow> domains_of st
      | Missing \<Rightarrow> []
      | Corrupt x \<Rightarrow> [])"

definition stored_agents :: "world \<Rightarrow> (string \<times> agent_record) list" where
  "stored_agents w =
     (case w_state_file w of
        Stored st \<Rightarrow> agents_of st
      | Missing \<Rightarrow> []
      | Corrupt x \<Rightarrow> [])"

definition stored_profile :: "world \<Rightarrow> storage_profile option" where
  "stored_profile w =
     (case w_state_file w of
        Stored st \<Rightarrow> (case st_storage st of None \<Rightarrow> None | Some sd \<Rightarrow> date_app sd)
      | Missing \<Rightarrow> None
      | Corrupt x \<Rightarrow> None)"

text \<open>Every record has a host name, and the host names are strictly increasing:
  the list is sorted by host name and no host name occurs twice.\<close>
definition sorted_unique :: "domain_record list \<Rightarrow> bool" where
  "sorted_unique ds =
     (\<not> list_ex (\<lambda>item. d_domain item = None) ds \<and> sorted_wrt (<) (map hostname_key ds))"

text \<open>The records of a list that carry a given host name\<close>
definition records_for :: "string \<Rightarrow> domain_record list \<Rightarrow> domain_record list" where
  "records_for h ds = filter (\<lambda>d. d_domain d = Some h) ds"

text \<open>The history of a record: \<^verbatim>\<open>record.get("history", [])\<close>\<close>
definition history_of :: "domain_record \<Rightarrow> domain_history list" where
  "history_of r = (case d_history r of None \<Rightarrow> [] | Some h \<Rightarrow> h)"

section \<open>Worked inputs\<close>

text \<open>
  An environment for concrete runs: the development API key, one clock reading for
  the whole call, and the digests of the host names used below (as
  \<^verbatim>\<open>hashlib.blake2s\<close> computes them).
\<close>
definition example_digest :: "string \<Rightarrow> string" where
  "example_digest s =
     (case map_of [(''shop.example.com'', ''3259c9c109f2''),
                   (''a.example.com'', ''b01178031888''),
                   (''b.example.com'', ''6750fe8c5b2d'')] s of
        Some d \<Rightarrow> d | None \<Rightarrow> [])"

definition example_env :: "string \<Rightarrow> int \<Rightarrow> env" where
  "example_env ts secs =
     \<lparr>API_KEY = ''local-dev-key-123'', now_handler = ts, now_default = ts,
      now_update = ts, unix_time = secs, blake2s_hex = example_digest\<rparr>"

definition example_key :: "string option" where
  "example_key = Some ''local-dev-key-123''"

definition fresh_world :: world where
  "fresh_world = \<lparr>w_state_file = Missing, w_traefik = None\<rparr>"

definition bootstrapped_world :: world where
  "bootstrapped_world =
     \<lparr>w_state_file = Stored (default_state ''2026-01-01T00:00:00Z''), w_traefik = None\<rparr>"

definition first_env :: env where
  "first_env = example_env ''2026-01-01T00:00:01Z'' 1767225601"

definition second_env :: env where
  "second_env = example_env ''2026-01-01T00:00:02Z'' 1767225602"

text \<open>The same request twice\<close>
definition upsert_request :: DomainHostRequest where
  "upsert_request =
     (DomainHostRequest_default ''a.example.com'')\<lparr>dh_target_service := Some ''fastmcp''\<rparr>"

definition upsert_first :: "(exn + domain_record \<times> int option) \<times> world" where
  "upsert_first = host_domain first_env example_key upsert_request fresh_world"

definition upsert_second :: "(exn + domain_record \<times> int option) \<times> world" where
  "upsert_second = host_domain second_env example_key upsert_request (snd upsert_first)"

text \<open>The same host name written with a scheme and in upper case, then plainly\<close>
definition cased_request :: DomainHostRequest where
  "cased_request =
     (DomainHostRequest_default ''HTTPS://A.example.com/'')
       \<lparr>dh_target_service := Some ''twinboss_api''\<rparr>"

definition cased_first :: "(exn + domain_record \<times> int option) \<times> world" where
  "cased_first = host_domain first_env example_key cased_request fresh_world"

definition cased_second :: "(exn + domain_record \<times> int option) \<times> world" where
  "cased_second = host_domain second_env example_key upsert_request (snd cased_first)"

definition example_calls :: "(env \<times> string option \<times> mutation) list" where
  "example_calls =
     [(example_env ''2026-01-01T00:00:01Z'' 1767225601, example_key,
       Host_domain ((DomainHostRequest_default ''a.example.com'')
                      \<lparr>dh_target_service := Some ''fastmcp''\<rparr>)),
      (example_env ''2026-01-01T00:00:02Z'' 1767225602, example_key,
       Register_agent (AgentRegistration_default ''Ops Bot!'')),
      (example_env ''2026-01-01T00:00:03Z'' 1767225603, example_key,
       Agents_create \<lparr>ac_name = ''root''\<rparr>),
      (example_env ''2026-01-01T00:00:04Z'' 1767225604, example_key,
       Setup_storage DateStorageRequest_default)]"

text \<open>Two records for the generator\<close>

definition record_a :: domain_record where
  "record_a = empty_domain\<lparr>d_domain := Some ''a.example.com'',
                           d_target_service := Some (Some ''twinboss_api'')\<rparr>"

definition record_b :: domain_record where
  "record_b = empty_domain\<lparr>d_domain := Some ''b.example.com'',
                           d_target_service := Some (Some ''fastmcp'')\<rparr>"

text \<open>The request of the \<^verbatim>\<open>shop.example.com\<close> scenario, the lines of the artifact
  it produces on a document without domain records, and its run on absent files\<close>

definition shop_request :: DomainHostRequest where
  "shop_request =
     (DomainHostRequest_default ''shop.example.com'')
       \<lparr>dh_target_service := Some ''twinboss_api'', dh_auto_ssl := True,
        dh_redirect_to_https := True\<rparr>"

definition shop_lines :: "string list" where
  "shop_lines =
     [''http:'',
      ''  middlewares:'',
      ''    redirect-to-https:'',
      ''      redirectScheme:'',
      ''        scheme: https'',
      ''        permanent: true'',
      ''  routers:'',
      ''    shop-example-com:'',
      ''      rule: Host(`shop.example.com`)'',
      ''      entryPoints:'',
      ''        - web'',
      ''      service: twinboss_api'',
      ''      middlewares:'',
      ''        - redirect-to-https'',
      ''  services:'',
      ''    twinboss_api:'',
      ''      loadBalancer:'',
      ''        servers:'',
      ''          - url: '' @ [CHR 0x22] @ ''http://twinboss_api:9000'' @ [CHR 0x22]]"

definition shop_result :: "(exn + domain_record \<times> int option) \<times> world" where
  "shop_result = host_domain first_env example_key shop_request fresh_world"

text \<open>Registrations of one agent with other capabilities and domains, and of a
  name without letters or digits at two different seconds\<close>

definition bot_first :: "(exn + agent_record) \<times> world" where
  "bot_first = register_agent first_env example_key
     ((AgentRegistration_default ''bot'')
        \<lparr>ar_capabilities := [''Search''], ar_domains := [''A.example.com'']\<rparr>) fresh_world"

definition bot_second :: "(exn + agent_record) \<times> world" where
  "bot_second = register_agent second_env example_key
     ((AgentRegistration_default ''bot'')
        \<lparr>ar_capabilities := [''deploy''], ar_domains := [''b.example.com'']\<rparr>) (snd bot_first)"

definition punct_first :: "(exn + agent_record) \<times> world" where
  "punct_first = register_agent first_env example_key
     (AgentRegistration_default ''!!!'') fresh_world"

definition punct_second :: "(exn + agent_record) \<times> world" where
  "punct_second = register_agent second_env example_key
     (AgentRegistration_default ''!!!'') (snd punct_first)"

definition ops_first :: "(exn + agent_record) \<times> world" where
  "ops_first = register_agent first_env example_key
     (AgentRegistration_default ''Ops Bot!'') fresh_world"

definition ops_second :: "(exn + agent_record) \<times> world" where
  "ops_second = register_agent second_env example_key
     (AgentRegistration_default ''ops bot'') (snd ops_first)"

text \<open>\<^verbatim>\<open>state.get("storage", {}).get("date_app")\<close>\<close>

definition profile_of :: "state \<Rightarrow> storage_profile option" where
  "profile_of st = (case st_storage st of None \<Rightarrow> None | Some sd \<Rightarrow> date_app sd)"

text \<open>A state file whose bytes are not valid UTF-8: reading it raises
  \<^verbatim>\<open>UnicodeDecodeError\<close>\<close>

definition undecodable_world :: "string option \<Rightarrow> world" where
  "undecodable_world artifact =
     \<lparr>w_state_file = Corrupt UnicodeDecodeError, w_traefik = artifact\<rparr>"

section \<open>Spellings of a host name\<close>

text \<open>A host name as it may be written in a request: not empty, without white space,
  control characters and the delimiters of a URL; and a scheme as \<^verbatim>\<open>urlsplit\<close>
  recognises it\<close>
definition host_char :: "char \<Rightarrow> bool" where
  "host_char c = (\<not> isspace c \<and> 32 < (of_char c :: nat) \<and> c \<notin> set ''/?#:@[]%'')"

definition valid_host :: "string \<Rightarrow> bool" where
  "valid_host h = (h \<noteq> [] \<and> list_all host_char h)"

definition valid_scheme :: "string \<Rightarrow> bool" where
  "valid_scheme s = (s \<noteq> [] \<and> isalpha (hd s) \<and> list_all (\<lambda>c. c \<in> set scheme_chars) s)"

text \<open>A host name written with or without a scheme and with or without a closing
  slash\<close>
definition spelled :: "string option \<Rightarrow> string \<Rightarrow> bool \<Rightarrow> string" where
  "spelled scheme host slash =
     (case scheme of None \<Rightarrow> [] | Some s \<Rightarrow> s @ ''://'')
     @ host @ (if slash then ''/'' else [])"

definition scheme_ok :: "string option \<Rightarrow> bool" where
  "scheme_ok scheme = (case scheme of None \<Rightarrow> True | Some s \<Rightarrow> valid_scheme s)"

section \<open>The parts of the generated text\<close>

text \<open>
  The parts of the generated lines. The lines before the router entries; the
  entry of one record (none for a record without a host name); the dictionary
  \<^verbatim>\<open>service_urls\<close> after the loop; and the lines after the router entries.
\<close>
definition has_host :: "domain_record \<Rightarrow> bool" where
  "has_host d = truthy_str (d_domain d)"

definition middleware_lines :: "string list" where
  "middleware_lines =
     [''  middlewares:'', ''    redirect-to-https:'', ''      redirectScheme:'',
      ''        scheme: https'', ''        permanent: true'']"

definition preamble_lines :: "domain_record list \<Rightarrow> string list" where
  "preamble_lines ds =
     [''http:'']
     @ (if list_ex (\<lambda>d. d_redirect_to_https d = Some True) ds then middleware_lines else [])
     @ [''  routers:'']"

definition router_block :: "domain_record \<Rightarrow> string list" where
  "router_block d =
     (case d_domain d of
        None \<Rightarrow> []
      | Some domain \<Rightarrow> if domain = [] then [] else router_lines d domain)"

text \<open>The backend name and the URL that a record files in \<^verbatim>\<open>service_urls\<close>\<close>
definition service_pair :: "domain_record \<Rightarrow> (string \<times> string) option" where
  "service_pair d =
     (case d_domain d of
        None \<Rightarrow> None
      | Some domain \<Rightarrow>
          if domain = [] then None
          else Some (service_name_of d (router_name_of d domain), backend_url d))"

definition collect_url :: "service_urls \<Rightarrow> domain_record \<Rightarrow> service_urls" where
  "collect_url su d =
     (case service_pair d of None \<Rightarrow> su | Some (name, url) \<Rightarrow> add_url name url su)"

definition service_urls_of :: "domain_record list \<Rightarrow> service_urls" where
  "service_urls_of ds = foldl collect_url [] ds"

definition placeholder_lines :: "string list" where
  "placeholder_lines =
     [''    placeholder:'', ''      rule: HostRegexp(`{any:.+}`)'', ''      service: noop'']"

definition trailer_lines :: "domain_record list \<Rightarrow> string list" where
  "trailer_lines ds =
     (if list_ex has_host ds then [] else placeholder_lines)
     @ [''  services:''] @ service_lines (service_urls_of ds)"

text \<open>The text of consecutive lines, each ended by a line feed\<close>
definition block_text :: "string list \<Rightarrow> string" where
  "block_text ls = concat (map (\<lambda>l. l @ [CHR 0x0A]) ls)"

text \<open>The lines of one backend, and the sorted URLs the generator writes under a
  backend name\<close>
definition url_line :: "string \<Rightarrow> string" where
  "url_line url = ''          - url: '' @ [CHR 0x22] @ url @ [CHR 0x22]"

definition backend_block :: "string \<Rightarrow> string list \<Rightarrow> string list" where
  "backend_block name urls =
     [''    '' @ name @ '':'', ''      loadBalancer:'', ''        servers:'']
     @ map url_line urls"

definition backend_urls :: "string \<Rightarrow> domain_record list \<Rightarrow> string list" where
  "backend_urls name ds =
     (case map_of (service_urls_of ds) name of None \<Rightarrow> [] | Some urls \<Rightarrow> sort urls)"

text \<open>The pairs of a \<^verbatim>\<open>service_urls\<close> dictionary, and what the model keeps true of
  it: keys occur once, and every value is a non-empty list without repetition\<close>
definition url_graph :: "service_urls \<Rightarrow> (string \<times> string) set" where
  "url_graph su = set (concat (map (\<lambda>(k, us). map (Pair k) us) su))"

definition well_formed :: "service_urls \<Rightarrow> bool" where
  "well_formed su =
     (distinct (map fst su) \<and> list_all (\<lambda>(k, us). distinct us \<and> us \<noteq> []) su)"


text \<open>The \<^verbatim>\<open>shop.example.com\<close> request on a document that holds \<^verbatim>\<open>a.example.com\<close>\<close>
definition shop_after_upsert :: "(exn + domain_record \<times> int option) \<times> world" where
  "shop_after_upsert = host_domain second_env example_key shop_request (snd upsert_first)"

section \<open>The state store: lemmas\<close>

lemma revision_refresh_meta:
  "revision_of (refresh_meta ts st) =
     Some ((case revision_of st of None \<Rightarrow> 0 | Some r \<Rightarrow> r) + 1)"
  by (simp add: refresh_meta_def revision_of_def Let_def empty_meta_def split: option.splits)

lemma domains_refresh_meta: "st_domains (refresh_meta ts st) = st_domains st"
  by (simp add: refresh_meta_def Let_def)

lemma agents_refresh_meta: "st_agents (refresh_meta ts st) = st_agents st"
  by (simp add: refresh_meta_def Let_def)

lemma storage_refresh_meta: "st_storage (refresh_meta ts st) = st_storage st"
  by (simp add: refresh_meta_def Let_def)

lemma update_state_Stored:
  assumes "w_state_file w = Stored st"
  shows "update_state e mutator w =
     (case mutator st of
        Inl x \<Rightarrow> (Inl x, w)
      | Inr (st1, r) \<Rightarrow> (Inr (refresh_meta (now_update e) st1, r),
                         w\<lparr>w_state_file := Stored (refresh_meta (now_update e) st1)\<rparr>))"
  using assms
  by (simp add: update_state_def read_state_unlocked_def write_state_unlocked_def Let_def
      split: sum.splits prod.splits)

lemma host_domain_mut_meta:
  "host_domain_mut e p n tsv tu tp ts st = Inr (st1, r) \<Longrightarrow> st_meta st1 = st_meta st"
  by (auto simp add: host_domain_mut_def Let_def split: sum.splits)

lemma setup_date_storage_mut_meta:
  "setup_date_storage_mut p ts st = Inr (st1, r) \<Longrightarrow> st_meta st1 = st_meta st"
  by (auto simp add: setup_date_storage_mut_def Let_def)

lemma register_agent_mut_meta:
  "register_agent_mut e p n c d ts st = Inr (st1, r) \<Longrightarrow> st_meta st1 = st_meta st"
  by (auto simp add: register_agent_mut_def Let_def)

lemma agents_create_mut_meta:
  "agents_create_mut e n ts st = Inr (st1, r) \<Longrightarrow> st_meta st1 = st_meta st"
  by (auto simp add: agents_create_mut_def Let_def)

lemma update_state_revision:
  assumes "w_state_file w = Stored st" and "revision_of st = Some R"
    and "\<And>st1 r. mutator st = Inr (st1, r) \<Longrightarrow> st_meta st1 = st_meta st"
    and "update_state e mutator w = (Inr (st2, r), w1)"
  shows "w_state_file w1 = Stored st2 \<and> revision_of st2 = Some (R + 1)
         \<and> w_traefik w1 = w_traefik w"
proof (cases "mutator st")
  case (Inl x)
  with assms(1,4) show ?thesis by (simp add: update_state_Stored)
next
  case (Inr p)
  obtain st1 r1 where p: "p = (st1, r1)" by (cases p)
  from assms(3) Inr p have "st_meta st1 = st_meta st" by simp
  then have "revision_of st1 = Some R" using assms(2) by (simp add: revision_of_def)
  with assms(1,4) Inr p show ?thesis
    by (auto simp add: update_state_Stored revision_refresh_meta)
qed

lemma host_domain_revision:
  assumes "w_state_file w = Stored st" and "revision_of st = Some R"
    and "host_domain e k p w = (Inr res, w1)"
  shows "\<exists>st'. w_state_file w1 = Stored st' \<and> revision_of st' = Some (R + 1)"
proof -
  from assms(3) obtain n tsv tu tp st2 r w2 where
    u: "update_state e (host_domain_mut e p n tsv tu tp (now_handler e)) w = (Inr (st2, r), w2)"
    and w1: "w1 = write_domain_dynamic_config (domains_of st2) w2"
    by (auto simp add: host_domain_def Let_def
        split: option.splits if_splits sum.splits prod.splits exn.splits)
  from update_state_revision[OF assms(1,2) host_domain_mut_meta u] w1
  show ?thesis by (simp add: write_domain_dynamic_config_def)
qed

lemma setup_date_storage_revision:
  assumes "w_state_file w = Stored st" and "revision_of st = Some R"
    and "setup_date_storage e k p w = (Inr res, w1)"
  shows "\<exists>st'. w_state_file w1 = Stored st' \<and> revision_of st' = Some (R + 1)"
proof -
  from assms(3) obtain st2 r where
    u: "update_state e (setup_date_storage_mut p (now_handler e)) w = (Inr (st2, r), w1)"
    by (auto simp add: setup_date_storage_def split: option.splits sum.splits prod.splits)
  from update_state_revision[OF assms(1,2) setup_date_storage_mut_meta u]
  show ?thesis by simp
qed

lemma register_agent_revision:
  assumes "w_state_file w = Stored st" and "revision_of st = Some R"
    and "register_agent e k p w = (Inr res, w1)"
  shows "\<exists>st'. w_state_file w1 = Stored st' \<and> revision_of st' = Some (R + 1)"
proof -
  from assms(3) obtain n c d st2 r where
    u: "update_state e (register_agent_mut e p n c d (now_handler e)) w = (Inr (st2, r), w1)"
    by (auto simp add: register_agent_def Let_def
        split: option.splits if_splits sum.splits prod.splits)
  from update_state_revision[OF assms(1,2) register_agent_mut_meta u]
  show ?thesis by simp
qed

lemma agents_create_revision:
  assumes "w_state_file w = Stored st" and "revision_of st = Some R"
    and "agents_create e k p w = (Inr res, w1)"
  shows "\<exists>st'. w_state_file w1 = Stored st' \<and> revision_of st' = Some (R + 1)"
proof -
  from assms(3) obtain n st2 r where
    u: "update_state e (agents_create_mut e n (now_handler e)) w = (Inr (st2, r), w1)"
    by (auto simp add: agents_create_def Let_def
        split: option.splits if_splits sum.splits prod.splits)
  from update_state_revision[OF assms(1,2) agents_create_mut_meta u]
  show ?thesis by simp
qed

lemma apply_mutation_revision:
  assumes "w_state_file w = Stored st" and "revision_of st = Some R"
    and "apply_mutation call w = (None, w1)"
  shows "\<exists>st'. w_state_file w1 = Stored st' \<and> revision_of st' = Some (R + 1)"
proof -
  obtain e k m where call: "call = (e, k, m)" by (cases call)
  show ?thesis
  proof (cases m)
    case (Host_domain p)
    with assms(3) call obtain res where "host_domain e k p w = (Inr res, w1)"
      by (auto simp add: apply_mutation_def split: prod.splits sum.splits)
    from host_domain_revision[OF assms(1,2) this] show ?thesis .
  next
    case (Register_agent p)
    with assms(3) call obtain res where "register_agent e k p w = (Inr res, w1)"
      by (auto simp add: apply_mutation_def split: prod.splits sum.splits)
    from register_agent_revision[OF assms(1,2) this] show ?thesis .
  next
    case (Agents_create p)
    with assms(3) call obtain res where "agents_create e k p w = (Inr res, w1)"
      by (auto simp add: apply_mutation_def split: prod.splits sum.splits)
    from agents_create_revision[OF assms(1,2) this] show ?thesis .
  next
    case (Setup_storage p)
    with assms(3) call obtain res where "setup_date_storage e k p w = (Inr res, w1)"
      by (auto simp add: apply_mutation_def split: prod.splits sum.splits)
    from setup_date_storage_revision[OF assms(1,2) this] show ?thesis .
  qed
qed

lemma run_mutations_revision:
  "w_state_file w = Stored st \<Longrightarrow> revision_of st = Some R \<Longrightarrow>
   run_mutations calls w = (outcomes, w') \<Longrightarrow> list_all (\<lambda>x. x = None) outcomes \<Longrightarrow>
   \<exists>st'. w_state_file w' = Stored st' \<and> revision_of st' = Some (R + int (length calls))"
proof (induction calls arbitrary: w st R outcomes w')
  case Nil
  then show ?case by simp
next
  case (Cons call calls)
  obtain o1 w1 where a: "apply_mutation call w = (o1, w1)" by (cases "apply_mutation call w")
  obtain os w2 where r: "run_mutations calls w1 = (os, w2)" by (cases "run_mutations calls w1")
  from Cons.prems(3) a r have eq: "outcomes = o1 # os" "w' = w2" by simp_all
  with Cons.prems(4) have o1: "o1 = None" and os: "list_all (\<lambda>x. x = None) os" by simp_all
  from apply_mutation_revision[OF Cons.prems(1,2) a[unfolded o1]]
  obtain st1 where s1: "w_state_file w1 = Stored st1" "revision_of st1 = Some (R + 1)" by blast
  from Cons.IH[OF s1 r os] eq show ?case by (simp add: algebra_simps)
qed

section \<open>Domain records: lemmas\<close>

lemma key_iff: "d_domain d \<noteq> None \<Longrightarrow> (hostname_key d = n) = (d_domain d = Some n)"
  by (auto simp add: hostname_key_def split: option.splits)

lemma key_Some: "d_domain d = Some n \<Longrightarrow> hostname_key d = n"
  by (simp add: hostname_key_def)

lemma entry_domain_new:
  "d_domain (host_domain_entry e p n tsv tu tp ts None) = Some n"
  by (simp add: host_domain_entry_def Let_def empty_domain_def)

lemma entry_domain_existing:
  "d_domain (host_domain_entry e p n tsv tu tp ts (Some d)) = d_domain d"
  by (simp add: host_domain_entry_def Let_def)

lemma find_filter: "find P xs = (case filter P xs of [] \<Rightarrow> None | x # _ \<Rightarrow> Some x)"
  by (induction xs) auto

lemma filter_replace_first:
  "P y \<Longrightarrow> filter P (replace_first P y xs) = (case filter P xs of [] \<Rightarrow> [] | x # r \<Rightarrow> y # r)"
  by (induction xs) auto

lemma keys_replace_first:
  "(\<And>x. x \<in> set xs \<Longrightarrow> P x \<Longrightarrow> f x = f y) \<Longrightarrow> map f (replace_first P y xs) = map f xs"
  by (induction xs) auto

lemma set_replace_first: "set (replace_first P y xs) \<subseteq> insert y (set xs)"
  by (induction xs) auto

lemma replace_first_mem: "find P xs \<noteq> None \<Longrightarrow> y \<in> set (replace_first P y xs)"
  by (induction xs) auto

lemma no_key_all: "(\<not> list_ex (\<lambda>item. d_domain item = None) ds) = (\<forall>d \<in> set ds. d_domain d \<noteq> None)"
  by (simp add: list_ex_iff)

lemma sort_by_domain_Inr:
  "sort_by_domain ds = Inr ds' \<Longrightarrow>
     (\<forall>d \<in> set ds. d_domain d \<noteq> None) \<and> ds' = sort_key hostname_key ds"
  by (auto simp add: sort_by_domain_def list_ex_iff split: if_splits)

lemma filter_sorted_domains:
  assumes "\<forall>d \<in> set ds. d_domain d \<noteq> None"
  shows "records_for n (sort_key hostname_key ds) = records_for n ds"
proof -
  have "filter (\<lambda>d. d_domain d = Some n) xs = filter (\<lambda>d. hostname_key d = n) xs"
    if "\<forall>d \<in> set xs. d_domain d \<noteq> None" for xs
    using that by (intro filter_cong) (auto simp add: key_iff)
  from this[of ds] this[of "sort_key hostname_key ds"] assms
  show ?thesis by (simp add: records_for_def sort_key_stable)
qed

lemma sorted_unique_sort:
  assumes "\<forall>d \<in> set ds. d_domain d \<noteq> None" and "distinct (map hostname_key ds)"
  shows "sorted_unique (sort_key hostname_key ds)"
proof -
  have "mset (map hostname_key (sort_key hostname_key ds)) = mset (map hostname_key ds)"
    by simp
  then have "distinct (map hostname_key (sort_key hostname_key ds))"
    using assms(2) by (metis mset_eq_imp_distinct_iff)
  with assms(1) show ?thesis
    by (simp add: sorted_unique_def strict_sorted_iff list_ex_iff)
qed

text \<open>What a successful run of the mutator of \<open>host_domain\<close> returns\<close>
lemma host_domain_mut_Inr:
  assumes "host_domain_mut e p n tsv tu tp ts st = Inr (st1, r)"
  defines "ds \<equiv> domains_of st"
  defines "ex \<equiv> find (\<lambda>d. d_domain d = Some n) ds"
  defines "ds' \<equiv> (if ex = None then ds @ [r]
                   else replace_first (\<lambda>d. d_domain d = Some n) r ds)"
  shows "r = host_domain_entry e p n tsv tu tp ts ex"
    and "domains_of st1 = sort_key hostname_key ds'"
    and "\<forall>d \<in> set ds'. d_domain d \<noteq> None"
    and "d_domain r = Some n"
    and "st_agents st1 = st_agents st" and "st_storage st1 = st_storage st"
proof -
  from assms(1) have r: "r = host_domain_entry e p n tsv tu tp ts ex"
    and s: "sort_by_domain ds' = Inr (domains_of st1)"
    and o: "st_agents st1 = st_agents st" "st_storage st1 = st_storage st"
    unfolding ds'_def ex_def ds_def
    by (auto simp add: host_domain_mut_def Let_def domains_of_def split: sum.splits)
  show "r = host_domain_entry e p n tsv tu tp ts ex" by (rule r)
  from sort_by_domain_Inr[OF s]
  show "domains_of st1 = sort_key hostname_key ds'" "\<forall>d \<in> set ds'. d_domain d \<noteq> None"
    by simp_all
  show "d_domain r = Some n"
  proof (cases ex)
    case None
    with r show ?thesis by (simp add: entry_domain_new)
  next
    case (Some d)
    then have "d_domain d = Some n" unfolding ex_def by (auto simp add: find_Some_iff)
    with r Some show ?thesis by (simp add: entry_domain_existing)
  qed
  show "st_agents st1 = st_agents st" "st_storage st1 = st_storage st" by (rule o)+
qed

lemma host_domain_mut_records:
  assumes "host_domain_mut e p n tsv tu tp ts st = Inr (st1, r)"
  shows "records_for n (domains_of st1) =
           r # tl (records_for n (domains_of st))"
    and "find (\<lambda>d. d_domain d = Some n) (domains_of st1) = Some r"
proof -
  note m = host_domain_mut_Inr[OF assms]
  let ?P = "\<lambda>d. d_domain d = Some n"
  let ?ds = "domains_of st"
  have "filter ?P (if find ?P ?ds = None then ?ds @ [r] else replace_first ?P r ?ds)
        = r # tl (filter ?P ?ds)"
    using m(4) by (auto simp add: find_filter filter_replace_first split: list.splits)
  with m(2,3) show a: "records_for n (domains_of st1) = r # tl (records_for n (domains_of st))"
    using filter_sorted_domains[OF m(3), of n] by (simp add: records_for_def)
  then show "find ?P (domains_of st1) = Some r"
    by (simp add: find_filter records_for_def)
qed

lemma host_domain_mut_sorted_unique:
  assumes "sorted_unique (domains_of st)"
    and "host_domain_mut e p n tsv tu tp ts st = Inr (st1, r)"
  shows "sorted_unique (domains_of st1)"
proof -
  note m = host_domain_mut_Inr[OF assms(2)]
  let ?P = "\<lambda>d. d_domain d = Some n"
  let ?ds = "domains_of st"
  let ?ds' = "if find ?P ?ds = None then ?ds @ [r] else replace_first ?P r ?ds"
  from assms(1) have nn: "\<forall>d \<in> set ?ds. d_domain d \<noteq> None"
    and di: "distinct (map hostname_key ?ds)"
    by (simp_all add: sorted_unique_def strict_sorted_iff list_ex_iff)
  have "distinct (map hostname_key ?ds')"
  proof (cases "find ?P ?ds")
    case None
    then have "\<forall>d \<in> set ?ds. d_domain d \<noteq> Some n" by (auto simp add: find_None_iff)
    with nn have "n \<notin> hostname_key ` set ?ds"
      by (force simp add: hostname_key_def split: option.splits)
    with di None m(4) show ?thesis by (simp add: key_Some)
  next
    case (Some d)
    have "map hostname_key (replace_first ?P r ?ds) = map hostname_key ?ds"
      by (rule keys_replace_first) (simp add: key_Some m(4))
    with di Some show ?thesis by simp
  qed
  from sorted_unique_sort[OF m(3) this] m(2) show ?thesis by simp
qed


lemma domains_refresh [simp]: "domains_of (refresh_meta ts st) = domains_of st"
  by (simp add: domains_of_def domains_refresh_meta)

lemma domains_default [simp]: "domains_of (default_state now) = []"
  by (simp add: domains_of_def default_state_def)

lemma agents_default [simp]: "agents_of (default_state now) = []"
  by (simp add: agents_of_def default_state_def)

lemma agents_refresh [simp]: "agents_of (refresh_meta ts st) = agents_of st"
  by (simp add: agents_of_def agents_refresh_meta)

lemma read_state_unlocked_cases:
  obtains (raised) x where "read_state_unlocked now w = (Inl x, w)"
    | (loaded) st w0 where "read_state_unlocked now w = (Inr st, w0)"
      and "w_state_file w = Stored st \<or> st = default_state now"
      and "domains_of st = stored_domains w" and "agents_of st = stored_agents w"
      and "stored_domains w0 = stored_domains w" and "stored_agents w0 = stored_agents w"
      and "w_traefik w0 = w_traefik w"
proof (cases "w_state_file w")
  case Missing
  then have "read_state_unlocked now w = (Inr (default_state now), w)"
    by (simp add: read_state_unlocked_def)
  with Missing show ?thesis
    by (intro loaded[of "default_state now" w])
       (simp_all add: stored_domains_def stored_agents_def)
next
  case (Stored st)
  then have "read_state_unlocked now w = (Inr st, w)"
    by (simp add: read_state_unlocked_def)
  with Stored show ?thesis
    by (intro loaded[of st w])
       (simp_all add: stored_domains_def stored_agents_def agents_of_def)
next
  case (Corrupt x)
  show ?thesis
  proof (cases "x = JSONDecodeError \<or> x = OSError")
    case True
    with Corrupt have "read_state_unlocked now w =
        (Inr (default_state now), w\<lparr>w_state_file := Stored (default_state now)\<rparr>)"
      by (simp add: read_state_unlocked_def write_state_unlocked_def Let_def)
    with Corrupt show ?thesis
      by (intro loaded[of "default_state now" "w\<lparr>w_state_file := Stored (default_state now)\<rparr>"])
         (simp_all add: stored_domains_def stored_agents_def agents_of_def[symmetric])
  next
    case False
    with Corrupt have "read_state_unlocked now w = (Inl x, w)"
      by (simp add: read_state_unlocked_def)
    then show ?thesis by (rule raised)
  qed
qed

text \<open>The two ways \<open>update_state\<close> ends\<close>
lemma update_state_cases:
  assumes "update_state e mutator w = (res, w1)"
  obtains (failure) x where "res = Inl x" and "stored_domains w1 = stored_domains w"
      and "stored_agents w1 = stored_agents w" and "w_traefik w1 = w_traefik w"
    | (success) st st1 r where "res = Inr (refresh_meta (now_update e) st1, r)"
      and "mutator st = Inr (st1, r)"
      and "w_state_file w = Stored st \<or> st = default_state (now_default e)"
      and "domains_of st = stored_domains w"
      and "agents_of st = stored_agents w"
      and "w_state_file w1 = Stored (refresh_meta (now_update e) st1)"
      and "w_traefik w1 = w_traefik w"
proof (cases rule: read_state_unlocked_cases[of "now_default e" w])
  case (raised x)
  with assms have "res = Inl x" "w1 = w" by (simp_all add: update_state_def)
  then show ?thesis by (intro failure[of x]) simp_all
next
  case (loaded st w0)
  show ?thesis
  proof (cases "mutator st")
    case (Inl x)
    with assms loaded(1) have "res = Inl x" "w1 = w0" by (simp_all add: update_state_def)
    with loaded show ?thesis by (intro failure[of x]) simp_all
  next
    case (Inr pr)
    obtain st1 r where pr: "pr = (st1, r)" by (cases pr)
    with assms loaded(1) Inr
    have "res = Inr (refresh_meta (now_update e) st1, r)"
      "w1 = w0\<lparr>w_state_file := Stored (refresh_meta (now_update e) st1)\<rparr>"
      by (simp_all add: update_state_def write_state_unlocked_def Let_def)
    with loaded Inr pr show ?thesis
      by (intro success[of st1 r st]) simp_all
  qed
qed


lemma stored_domains_traefik [simp]:
  "stored_domains (write_domain_dynamic_config ds w) = stored_domains w"
  "stored_agents (write_domain_dynamic_config ds w) = stored_agents w"
  by (simp_all add: write_domain_dynamic_config_def stored_domains_def stored_agents_def)

lemma stored_domains_Stored:
  "w_state_file w = Stored st \<Longrightarrow> stored_domains w = domains_of st"
  by (simp add: stored_domains_def)

lemma stored_agents_Stored:
  "w_state_file w = Stored st \<Longrightarrow> stored_agents w = agents_of st"
  by (simp add: stored_agents_def agents_of_def)

text \<open>A successful \<open>host_domain\<close> has normalized the host name and run its mutator
  on the document that was read\<close>
lemma host_domain_Inr:
  assumes "host_domain e k p w = (Inr (r, v), w1)"
  obtains n st st1 where "normalize_domain (dh_domain p) = Inr n"
    and "host_domain_mut e p n (dh_target_service p) (host_target_url p)
           (host_target_port p) (now_handler e) st = Inr (st1, r)"
    and "domains_of st = stored_domains w"
    and "stored_domains w1 = domains_of st1"
    and "w_traefik w1 = Some (config_text (domains_of st1))"
proof -
  from assms obtain n where n: "normalize_domain (dh_domain p) = Inr n"
    by (auto simp add: host_domain_def split: option.splits if_splits sum.splits exn.splits)
  let ?mut = "host_domain_mut e p n (dh_target_service p) (host_target_url p)
           (host_target_port p) (now_handler e)"
  obtain res w2 where u: "update_state e ?mut w = (res, w2)"
    by (cases "update_state e ?mut w")
  from assms n u obtain st2 where res: "res = Inr (st2, r)"
    and w1: "w1 = write_domain_dynamic_config (domains_of st2) w2"
    by (auto simp add: host_domain_def split: option.splits if_splits sum.splits)
  from u show ?thesis
  proof (cases rule: update_state_cases)
    case (failure x)
    with res show ?thesis by simp
  next
    case (success st st1 r')
    with res have "r' = r" "st2 = refresh_meta (now_update e) st1" by simp_all
    with success w1 n show ?thesis
      by (intro that[of n st st1])
         (simp_all add: stored_domains_Stored write_domain_dynamic_config_def
            stored_domains_def)
  qed
qed

lemma host_domain_sorted_unique:
  assumes "sorted_unique (stored_domains w)"
  shows "sorted_unique (stored_domains (snd (host_domain e k p w)))"
proof -
  have unchanged: "sorted_unique (stored_domains w')" if "stored_domains w' = stored_domains w" for w'
    using that assms by simp
  show ?thesis
  proof (cases "auth e k")
    case (Some x)
    then show ?thesis using assms by (simp add: host_domain_def)
  next
    case None
    show ?thesis
    proof (cases "normalize_domain (dh_domain p)")
      case (Inl x)
      with None assms show ?thesis
        by (simp add: host_domain_def split: exn.splits)
    next
      case (Inr n)
      let ?mut = "host_domain_mut e p n (dh_target_service p) (host_target_url p)
           (host_target_port p) (now_handler e)"
      obtain res w2 where u: "update_state e ?mut w = (res, w2)"
        by (cases "update_state e ?mut w")
      from u have "sorted_unique (stored_domains w2)"
      proof (cases rule: update_state_cases)
        case (failure x)
        then show ?thesis using assms by simp
      next
        case (success st st1 r)
        from host_domain_mut_sorted_unique[OF _ success(2)] success(4) assms
        have "sorted_unique (domains_of st1)" by simp
        with success(6) show ?thesis by (simp add: stored_domains_Stored)
      qed
      with None Inr u assms show ?thesis
        by (auto simp add: host_domain_def split: sum.splits prod.splits)
    qed
  qed
qed

text \<open>A mutator that leaves the domain list alone leaves it alone in the file\<close>
lemma update_state_domains_unchanged:
  assumes "\<And>st st1 r. mutator st = Inr (st1, r) \<Longrightarrow> domains_of st1 = domains_of st"
  shows "stored_domains (snd (update_state e mutator w)) = stored_domains w"
proof -
  obtain res w1 where u: "update_state e mutator w = (res, w1)"
    by (cases "update_state e mutator w")
  from u have "stored_domains w1 = stored_domains w"
  proof (cases rule: update_state_cases)
    case (failure x)
    then show ?thesis by simp
  next
    case (success st st1 r)
    from assms[OF success(2)] success(4,6) show ?thesis
      by (simp add: stored_domains_Stored)
  qed
  with u show ?thesis by simp
qed

lemma snd_handler_result:
  "snd (case u of (Inl x, w1) \<Rightarrow> (Inl x, w1) | (Inr (st, rec), w1) \<Rightarrow> (Inr (f st rec), w1))
     = snd u"
  by (cases u) (auto split: sum.splits prod.splits)

lemma setup_date_storage_domains:
  "stored_domains (snd (setup_date_storage e k p w)) = stored_domains w"
proof -
  have "stored_domains (snd (update_state e (setup_date_storage_mut p (now_handler e)) w))
      = stored_domains w"
    by (rule update_state_domains_unchanged)
       (auto simp add: setup_date_storage_mut_def Let_def domains_of_def)
  then show ?thesis
    by (simp add: setup_date_storage_def snd_handler_result split: option.splits)
qed

lemma register_agent_domains:
  "stored_domains (snd (register_agent e k p w)) = stored_domains w"
proof -
  have "stored_domains (snd (update_state e (register_agent_mut e p n c d (now_handler e)) w))
      = stored_domains w" for n c d
    by (rule update_state_domains_unchanged)
       (auto simp add: register_agent_mut_def Let_def domains_of_def)
  then show ?thesis
    by (simp add: register_agent_def Let_def snd_handler_result split: option.splits)
qed

lemma agents_create_domains:
  "stored_domains (snd (agents_create e k p w)) = stored_domains w"
proof -
  have "stored_domains (snd (update_state e (agents_create_mut e n (now_handler e)) w))
      = stored_domains w" for n
    by (rule update_state_domains_unchanged)
       (auto simp add: agents_create_mut_def Let_def domains_of_def)
  then show ?thesis
    by (simp add: agents_create_def Let_def snd_handler_result split: option.splits)
qed

lemma apply_mutation_sorted_unique:
  assumes "sorted_unique (stored_domains w)"
  shows "sorted_unique (stored_domains (snd (apply_mutation call w)))"
proof -
  obtain e k m where call: "call = (e, k, m)" by (cases call)
  show ?thesis
  proof (cases m)
    case (Host_domain p)
    have "snd (apply_mutation call w) = snd (host_domain e k p w)"
      using call Host_domain by (simp add: apply_mutation_def split: prod.splits sum.splits)
    with host_domain_sorted_unique[OF assms] show ?thesis by simp
  next
    case (Register_agent p)
    have "snd (apply_mutation call w) = snd (register_agent e k p w)"
      using call Register_agent by (simp add: apply_mutation_def split: prod.splits sum.splits)
    with register_agent_domains assms show ?thesis by simp
  next
    case (Agents_create p)
    have "snd (apply_mutation call w) = snd (agents_create e k p w)"
      using call Agents_create by (simp add: apply_mutation_def split: prod.splits sum.splits)
    with agents_create_domains assms show ?thesis by simp
  next
    case (Setup_storage p)
    have "snd (apply_mutation call w) = snd (setup_date_storage e k p w)"
      using call Setup_storage by (simp add: apply_mutation_def split: prod.splits sum.splits)
    with setup_date_storage_domains assms show ?thesis by simp
  qed
qed

lemma sorted_unique_one_record:
  assumes "sorted_unique ds" and "r \<in> set ds" and "d_domain r = Some h"
  shows "records_for h ds = [r]"
proof -
  from assms(1) have nn: "\<forall>d \<in> set ds. d_domain d \<noteq> None"
    and di: "distinct (map hostname_key ds)"
    by (simp_all add: sorted_unique_def strict_sorted_iff list_ex_iff)
  have "records_for h ds = filter (\<lambda>d. hostname_key d = hostname_key r) ds"
    unfolding records_for_def using nn assms(3)
    by (intro filter_cong) (auto simp add: hostname_key_def split: option.splits)
  also have "\<dots> = [r]"
    using di assms(2)
  proof (induction ds)
    case Nil
    then show ?case by simp
  next
    case (Cons a ds)
    then show ?case by (cases "a = r") (auto simp add: filter_empty_conv image_iff)
  qed
  finally show ?thesis .
qed


lemma or_str_idem: "or_str (Some (or_str v d)) d = or_str v d"
  by (simp add: or_str_def split: option.splits)

lemma entry_history_new:
  "history_of (host_domain_entry e p n tsv tu tp ts None) =
     [\<lparr>h_action = ''provisioned'', h_at = ts,
       h_target = (if truthy_str tsv then tsv else tu)\<rparr>]"
  by (simp add: host_domain_entry_def Let_def empty_domain_def history_of_def)

lemma entry_history_Some:
  "d_history (host_domain_entry e p n tsv tu tp ts ex) =
     Some (history_of (host_domain_entry e p n tsv tu tp ts ex))"
  by (simp add: host_domain_entry_def Let_def history_of_def)

text \<open>Building the record again, from the record built before and the same request\<close>
lemma entry_twice:
  fixes e1 e2 p n tsv tu tp ts1 ts2 ex
  defines "r1 \<equiv> host_domain_entry e1 p n tsv tu tp ts1 ex"
  shows "host_domain_entry e2 p n tsv tu tp ts2 (Some r1) =
     r1\<lparr>d_updated_at := Some ts2,
        d_history := Some (history_of r1 @
          [\<lparr>h_action = ''updated'', h_at = ts2,
            h_target = (if truthy_str tsv then tsv else tu)\<rparr>])\<rparr>"
  unfolding r1_def
  by (cases ex)
     (simp_all add: host_domain_entry_def Let_def history_of_def or_str_idem get_opt_def)

section \<open>The normalizer: lemmas\<close>

lemma scheme_chars_checked:
  "list_all (\<lambda>c. c \<noteq> CHR '':'' \<and> \<not> (of_char c :: nat) \<le> 32 \<and> \<not> isspace c
                 \<and> c \<notin> set [CHR 0x09, CHR 0x0D, CHR 0x0A]) scheme_chars"
  by code_simp

lemma scheme_char_facts:
  assumes "c \<in> set scheme_chars"
  shows "c \<noteq> CHR '':''" and "\<not> (of_char c :: nat) \<le> 32"
    and "c \<notin> set [CHR 0x09, CHR 0x0D, CHR 0x0A]" and "\<not> isspace c"
  using assms scheme_chars_checked unfolding list_all_iff by blast+

lemma host_char_facts:
  assumes "host_char c"
  shows "c \<notin> set ''/?#:@[]%''" and "\<not> isspace c" and "\<not> (of_char c :: nat) \<le> 32"
    and "c \<notin> set [CHR 0x09, CHR 0x0D, CHR 0x0A]"
proof -
  from assms show "c \<notin> set ''/?#:@[]%''" "\<not> isspace c" "\<not> (of_char c :: nat) \<le> 32"
    unfolding host_char_def by simp_all
  have "\<not> (32 :: nat) < of_char x" if "x \<in> set [CHR 0x09, CHR 0x0D, CHR 0x0A]" for x
    using that by auto
  with assms show "c \<notin> set [CHR 0x09, CHR 0x0D, CHR 0x0A]"
    unfolding host_char_def by blast
qed

lemma lowercase_not_keys:
  "list_all (\<lambda>l. map_of (zip (ascii_uppercase @ latin1_uppercase)
                              (ascii_lowercase @ latin1_lowercase)) l = None)
     (ascii_lowercase @ latin1_lowercase)"
  by code_simp

lemma lower_char_idem: "lower_char (lower_char c) = lower_char c"
proof (cases "map_of (zip (ascii_uppercase @ latin1_uppercase)
                          (ascii_lowercase @ latin1_lowercase)) c")
  case None
  then show ?thesis by (simp add: lower_char_def)
next
  case (Some l)
  then have "l \<in> set (ascii_lowercase @ latin1_lowercase)"
    by (blast dest: map_of_SomeD set_zip_rightD)
  with lowercase_not_keys
  have "map_of (zip (ascii_uppercase @ latin1_uppercase)
                          (ascii_lowercase @ latin1_lowercase)) l = None"
    unfolding list_all_iff by blast
  with Some show ?thesis by (simp add: lower_char_def)
qed

lemma lower_idem: "lower (lower s) = lower s"
  by (simp add: lower_def lower_char_idem)

lemma strip_id:
  assumes "s \<noteq> []" and "\<not> isspace (hd s)" and "\<not> isspace (last s)"
  shows "strip s = s"
proof -
  from assms(1,2) have "dropWhile isspace s = s" by (cases s) simp_all
  moreover from assms(1,3) have "dropWhile isspace (rev s) = rev s"
    by (cases "rev s") (simp_all add: hd_rev[symmetric])
  ultimately show ?thesis by (simp add: strip_def)
qed


lemma not_contains_slashes:
  "list_all host_char h \<Longrightarrow> t = [] \<or> t = ''/'' \<Longrightarrow> \<not> contains ''//'' (h @ t)"
proof (induction h)
  case Nil
  then show ?case by auto
next
  case (Cons c h)
  from Cons.prems(1) have "c \<noteq> CHR ''/''" using host_char_facts(1)[of c] by simp
  with Cons show ?case by simp
qed

lemma contains_after_scheme: "contains ''//'' (s @ ''://'' @ rest)"
  by (induction s) simp_all

lemma takeWhile_all: "\<forall>x \<in> set xs. P x \<Longrightarrow> takeWhile P (xs @ ys) = xs @ takeWhile P ys"
  by (induction xs) simp_all

lemma dropWhile_all: "\<forall>x \<in> set xs. P x \<Longrightarrow> dropWhile P (xs @ ys) = dropWhile P ys"
  by (induction xs) simp_all

text \<open>The network location of a URL made of a scheme, a host name and at most a
  closing slash is the host name\<close>
lemma netloc_of_spelling:
  assumes s: "valid_scheme s" and h: "valid_host h" and t: "t = [] \<or> t = ''/''"
  shows "urlparse_netloc (s @ ''://'' @ h @ t) = h"
proof -
  let ?url = "s @ ''://'' @ h @ t"
  from s have s1: "s \<noteq> []" "isalpha (hd s)" "\<forall>c \<in> set s. c \<in> set scheme_chars"
    by (simp_all add: valid_scheme_def list_all_iff)
  from h have h1: "h \<noteq> []" "\<forall>c \<in> set h. host_char c"
    by (simp_all add: valid_host_def list_all_iff)
  from s1 have "hd s \<in> set scheme_chars" by simp
  then have "\<not> (of_char (hd s) :: nat) \<le> 32" by (rule scheme_char_facts(2))
  with s1(1) have u1: "dropWhile (\<lambda>c. (of_char c :: nat) \<le> 32) ?url = ?url"
    by (cases s) simp_all
  have "\<forall>c \<in> set ?url. c \<notin> set [CHR 0x09, CHR 0x0D, CHR 0x0A]"
    using s1(3) h1(2) t scheme_char_facts(3) host_char_facts(4) by auto
  then have u2: "filter (\<lambda>c. c \<notin> set [CHR 0x09, CHR 0x0D, CHR 0x0A]) ?url = ?url"
    by (simp only: filter_id_conv) 
  have pre: "takeWhile (\<lambda>c. c \<noteq> CHR '':'') ?url = s"
    using s1(3) scheme_char_facts(1) by (simp add: takeWhile_all)
  have colon: "CHR '':'' \<in> set ?url" by simp
  have u3: "drop (Suc (length s)) ?url = ''//'' @ h @ t" by simp
  have nl: "takeWhile (\<lambda>c. c \<notin> set ''/?#'') (h @ t) = h"
  proof -
    have "\<forall>c \<in> set h. c \<notin> set ''/?#''" using h1(2) host_char_facts(1) by fastforce
    then have "takeWhile (\<lambda>c. c \<notin> set ''/?#'') (h @ t) = h @ takeWhile (\<lambda>c. c \<notin> set ''/?#'') t"
      by (rule takeWhile_all)
    with t show ?thesis by auto
  qed
  show ?thesis
    unfolding urlparse_netloc_def Let_def u1 u2 pre
    using s1 colon nl by (simp add: list_all_iff)
qed

lemma hostname_of_spelling:
  assumes s: "valid_scheme s" and h: "valid_host h" and t: "t = [] \<or> t = ''/''"
  shows "urlparse_hostname (s @ ''://'' @ h @ t) = Inr (Some (lower h))"
proof -
  from h have h1: "h \<noteq> []" "\<forall>c \<in> set h. host_char c"
    by (simp_all add: valid_host_def list_all_iff)
  have d: "\<forall>c \<in> set h. c \<notin> set ''/?#:@[]%''" using h1(2) host_char_facts(1) by blast
  then have nb: "CHR ''['' \<notin> set h" "CHR '']'' \<notin> set h" by auto
  from d have "\<forall>c \<in> set (rev h). c \<noteq> CHR ''@''" by auto
  then have "takeWhile (\<lambda>x. x \<noteq> CHR ''@'') (rev h) = rev h"
    by (simp only: takeWhile_eq_all_conv)
  then have al: "after_last CHR ''@'' h = h"
    unfolding after_last_def by (simp only: rev_rev_ident)
  from d have "\<forall>c \<in> set h. c \<noteq> CHR '':''" by auto
  then have tc: "takeWhile (\<lambda>c. c \<noteq> CHR '':'') h = h" by (simp only: takeWhile_eq_all_conv)
  from d have "\<forall>c \<in> set h. c \<noteq> CHR ''%''" by auto
  then have tp: "takeWhile (\<lambda>c. c \<noteq> CHR ''%'') h = h" "dropWhile (\<lambda>c. c \<noteq> CHR ''%'') h = []"
    by (simp_all only: takeWhile_eq_all_conv dropWhile_eq_Nil_conv)
  show ?thesis
    unfolding urlparse_hostname_def netloc_of_spelling[OF assms] Let_def al
    using nb h1(1) by (simp add: tc tp)
qed

text \<open>Spelled with a scheme or without one, with or without a closing slash, in
  any letter case, a host name normalizes to its lower case\<close>
lemma normalize_with_scheme:
  assumes s: "valid_scheme s" and h: "valid_host h" and t: "t = [] \<or> t = ''/''"
  shows "normalize_domain (s @ ''://'' @ h @ t) = Inr (lower h)"
proof -
  define url where "url = s @ ''://'' @ h @ t"
  from s have s1: "s \<noteq> []" "hd s \<in> set scheme_chars"
    by (auto simp add: valid_scheme_def list_all_iff)
  from h have h1: "h \<noteq> []" "\<forall>c \<in> set h. host_char c"
    by (simp_all add: valid_host_def list_all_iff)
  have ne: "url \<noteq> []" using s1(1) by (simp add: url_def)
  have "hd url = hd s" using s1(1) by (simp add: url_def)
  then have a: "\<not> isspace (hd url)" using scheme_char_facts(4)[OF s1(2)] by simp
  have "last url = CHR ''/'' \<or> last url = last h" using t h1(1) by (auto simp add: url_def)
  moreover have "\<not> isspace (CHR ''/'')" by (simp add: isspace_def)
  moreover have "\<not> isspace (last h)" using h1 host_char_facts(2) by simp
  ultimately have b: "\<not> isspace (last url)" by metis
  have st: "strip url = url" using ne a b by (rule strip_id)
  have c: "contains ''//'' url" unfolding url_def by (rule contains_after_scheme)
  have hn: "urlparse_hostname url = Inr (Some (lower h))"
    unfolding url_def by (rule hostname_of_spelling[OF assms])
  have "normalize_domain url = Inr (lower h)"
    unfolding normalize_domain_def Let_def st
    using ne c hn by (simp add: lower_idem)
  then show ?thesis by (simp only: url_def)
qed

lemma valid_scheme_http: "valid_scheme ''http''"
  by code_simp

lemma normalize_without_scheme:
  assumes h: "valid_host h" and t: "t = [] \<or> t = ''/''"
  shows "normalize_domain (h @ t) = Inr (lower h)"
proof -
  define d where "d = h @ t"
  from h have h1: "h \<noteq> []" "\<forall>c \<in> set h. host_char c" "list_all host_char h"
    by (simp_all add: valid_host_def list_all_iff)
  have ne: "d \<noteq> []" using h1(1) by (simp add: d_def)
  have "hd d = hd h" using h1(1) by (simp add: d_def)
  then have a: "\<not> isspace (hd d)" using h1 host_char_facts(2) by simp
  have "last d = CHR ''/'' \<or> last d = last h" using t h1(1) by (auto simp add: d_def)
  moreover have "\<not> isspace (CHR ''/'')" by (simp add: isspace_def)
  moreover have "\<not> isspace (last h)" using h1 host_char_facts(2) by simp
  ultimately have b: "\<not> isspace (last d)" by metis
  have st: "strip d = d" using ne a b by (rule strip_id)
  have nc: "\<not> contains ''//'' d" unfolding d_def by (rule not_contains_slashes[OF h1(3) t])
  have hn: "urlparse_hostname (''http://'' @ d) = Inr (Some (lower h))"
    unfolding d_def using hostname_of_spelling[OF valid_scheme_http h t] by simp
  have "normalize_domain d = Inr (lower h)"
    unfolding normalize_domain_def Let_def st
    using ne nc hn by (simp add: lower_idem)
  then show ?thesis by (simp only: d_def)
qed


lemma normalize_spelled:
  assumes "valid_host h" and "scheme_ok sc"
  shows "normalize_domain (spelled sc h sl) = Inr (lower h)"
proof (cases sc)
  case None
  have "spelled sc h sl = h @ (if sl then ''/'' else [])"
    by (simp add: spelled_def None)
  moreover have "normalize_domain (h @ (if sl then ''/'' else [])) = Inr (lower h)"
    by (rule normalize_without_scheme[OF assms(1)]) simp
  ultimately show ?thesis by (simp only:)
next
  case (Some s)
  with assms(2) have s: "valid_scheme s" by (simp add: scheme_ok_def)
  have "spelled sc h sl = s @ ''://'' @ h @ (if sl then ''/'' else [])"
    by (simp add: spelled_def Some)
  moreover have "normalize_domain (s @ ''://'' @ h @ (if sl then ''/'' else [])) = Inr (lower h)"
    by (rule normalize_with_scheme[OF s assms(1)]) simp
  ultimately show ?thesis by (simp only:)
qed

section \<open>The generator: lemmas\<close>

lemma routers_loop_parts:
  "routers_loop ds (l, rw, su) =
     (l @ concat (map router_block ds), rw \<or> list_ex has_host ds, foldl collect_url su ds)"
proof (induction ds arbitrary: l rw su)
  case Nil
  then show ?case by simp
next
  case (Cons d ds)
  show ?case
    by (cases "d_domain d")
       (simp_all add: Cons.IH router_block_def has_host_def truthy_str_def collect_url_def
          service_pair_def)
qed

lemma config_lines_parts:
  "config_lines ds = preamble_lines ds @ concat (map router_block ds) @ trailer_lines ds"
  by (simp add: config_lines_def Let_def routers_loop_parts preamble_lines_def
      trailer_lines_def middleware_lines_def placeholder_lines_def service_urls_of_def)

lemma block_text_append [simp]: "block_text (xs @ ys) = block_text xs @ block_text ys"
  by (simp add: block_text_def)

lemma block_text_concat: "block_text (concat xss) = concat (map block_text xss)"
  by (induction xss) (simp_all add: block_text_def)

lemma join_block_text: "ls \<noteq> [] \<Longrightarrow> join [CHR 0x0A] ls @ [CHR 0x0A] = block_text ls"
  by (induction "[CHR 0x0A]" ls rule: join.induct) (simp_all add: block_text_def)

lemma config_text_block: "config_text ds = block_text (config_lines ds)"
proof -
  have "config_lines ds \<noteq> []" by (simp add: config_lines_parts preamble_lines_def)
  then show ?thesis by (simp add: config_text_def join_block_text)
qed

lemma config_text_parts:
  "config_text ds = block_text (preamble_lines ds)
     @ concat (map (\<lambda>d. block_text (router_block d)) ds) @ block_text (trailer_lines ds)"
  by (simp add: config_text_block config_lines_parts block_text_concat comp_def)


lemma update_set:
  "distinct (map fst al) \<Longrightarrow> (k, old) \<in> set al \<Longrightarrow>
   set (AList.update k v al) = insert (k, v) (set al - {(k, old)})"
proof (induction al)
  case Nil
  then show ?case by simp
next
  case (Cons a al)
  obtain k' v' where a: "a = (k', v')" by (cases a)
  show ?case
  proof (cases "k' = k")
    case True
    with Cons.prems a have "v' = old" by (auto simp: image_iff)
    with True a Cons.prems show ?thesis by (auto simp: image_iff)
  next
    case False
    with Cons.prems a have "(k, old) \<in> set al" "distinct (map fst al)" by auto
    from Cons.IH[OF this(2) this(1)] False a Cons.prems show ?thesis by (auto simp: image_iff)
  qed
qed

lemma url_graph_iff: "(k, u) \<in> url_graph su \<longleftrightarrow> (\<exists>us. (k, us) \<in> set su \<and> u \<in> set us)"
  by (auto simp: url_graph_def)

lemma well_formed_Nil: "well_formed []" "url_graph [] = {}"
  by (simp_all add: well_formed_def url_graph_def)

lemma add_url_well_formed:
  assumes "well_formed su"
  shows "well_formed (add_url n u su)" "url_graph (add_url n u su) = insert (n, u) (url_graph su)"
proof -
  from assms have d: "distinct (map fst su)"
    and a: "\<And>k us. (k, us) \<in> set su \<Longrightarrow> distinct us \<and> us \<noteq> []"
    by (auto simp: well_formed_def list_all_iff)
  have "well_formed (add_url n u su) \<and> url_graph (add_url n u su) = insert (n, u) (url_graph su)"
  proof (cases "map_of su n")
    case None
    then have "n \<notin> fst ` set su" by (simp add: map_of_eq_None_iff)
    with None assms show ?thesis
      by (auto simp: add_url_def well_formed_def url_graph_def)
  next
    case (Some urls)
    then have m: "(n, urls) \<in> set su" by (rule map_of_SomeD)
    define v where "v = (if u \<in> set urls then urls else urls @ [u])"
    have au: "add_url n u su = AList.update n v su" by (simp add: add_url_def Some v_def)
    have s: "set (AList.update n v su) = insert (n, v) (set su - {(n, urls)})"
      by (rule update_set[OF d m])
    have v: "distinct v" "v \<noteq> []" "set v = insert u (set urls)"
      using a[OF m] by (auto simp: v_def)
    have uniq: "\<And>us. (n, us) \<in> set su \<Longrightarrow> us = urls"
      using d m by (meson eq_key_imp_eq_value)
    have wf: "well_formed (AList.update n v su)"
      unfolding well_formed_def list_all_iff using d a v s by (auto simp: distinct_update)
    have "url_graph (AList.update n v su) = insert (n, u) (url_graph su)"
    proof (rule set_eqI)
      fix p :: "string \<times> string"
      obtain k x where p: "p = (k, x)" by (cases p)
      have keyn: "(n, us) \<in> insert (n, v) (set su - {(n, urls)}) \<longleftrightarrow> us = v" for us
        using uniq by blast
      have gn: "(\<exists>us. (n, us) \<in> set su \<and> x \<in> set us) \<longleftrightarrow> x \<in> set urls"
        using m uniq by blast
      show "p \<in> url_graph (AList.update n v su) \<longleftrightarrow> p \<in> insert (n, u) (url_graph su)"
      proof (cases "k = n")
        case True
        have "(n, x) \<in> url_graph (AList.update n v su) \<longleftrightarrow> x \<in> set v"
          by (simp only: url_graph_iff s keyn) simp
        moreover have "(n, x) \<in> url_graph su \<longleftrightarrow> x \<in> set urls"
          by (simp only: url_graph_iff gn)
        ultimately show ?thesis unfolding p True using v(3) by simp
      next
        case False
        then have "(k, us) \<in> insert (n, v) (set su - {(n, urls)}) \<longleftrightarrow> (k, us) \<in> set su" for us
          by simp
        then have "(k, x) \<in> url_graph (AList.update n v su) \<longleftrightarrow> (k, x) \<in> url_graph su"
          by (simp only: url_graph_iff s)
        with False show ?thesis unfolding p by simp
      qed
    qed
    with wf au show ?thesis by simp
  qed
  then show "well_formed (add_url n u su)"
    "url_graph (add_url n u su) = insert (n, u) (url_graph su)" by simp_all
qed

lemma collect_url_well_formed:
  assumes "well_formed su"
  shows "well_formed (collect_url su d)"
    "url_graph (collect_url su d) = set_option (service_pair d) \<union> url_graph su"
  using assms add_url_well_formed[OF assms]
  by (auto simp: collect_url_def split: option.splits)

lemma foldl_collect_url:
  "well_formed su \<Longrightarrow>
   well_formed (foldl collect_url su ds)
   \<and> url_graph (foldl collect_url su ds) = (\<Union>d \<in> set ds. set_option (service_pair d)) \<union> url_graph su"
proof (induction ds arbitrary: su)
  case Nil
  then show ?case by simp
next
  case (Cons d ds)
  from collect_url_well_formed[OF Cons.prems, of d] Cons.IH[of "collect_url su d"]
  show ?case by auto
qed

lemma service_urls_of_well_formed:
  "well_formed (service_urls_of ds)"
  "url_graph (service_urls_of ds) = (\<Union>d \<in> set ds. set_option (service_pair d))"
  using foldl_collect_url[OF well_formed_Nil(1), of ds]
  by (simp_all add: service_urls_of_def well_formed_Nil)

text \<open>What the generator writes for a well-formed dictionary is a function of its pairs\<close>
lemma service_lines_blocks:
  "service_lines su =
     (if su \<noteq> [] then concat (map (\<lambda>(name, urls). backend_block name (sort urls)) (sort_key fst su))
      else backend_block ''noop'' [''http://127.0.0.1:9000''])"
  by (simp add: service_lines_def backend_block_def url_line_def[abs_def])

lemma sorted_entries_canonical:
  assumes "well_formed su"
  shows "map (\<lambda>(name, urls). (name, sort urls)) (sort_key fst su) =
         map (\<lambda>k. (k, sorted_list_of_set (url_graph su `` {k})))
             (sorted_list_of_set (fst ` url_graph su))"
proof -
  from assms have d: "distinct (map fst su)"
    and a: "\<And>k us. (k, us) \<in> set su \<Longrightarrow> distinct us \<and> us \<noteq> []"
    by (auto simp: well_formed_def list_all_iff)
  have keys: "fst ` url_graph su = fst ` set su"
  proof (rule set_eqI)
    fix k
    show "k \<in> fst ` url_graph su \<longleftrightarrow> k \<in> fst ` set su"
    proof
      assume "k \<in> fst ` url_graph su"
      then obtain u where "(k, u) \<in> url_graph su" by auto
      then show "k \<in> fst ` set su" unfolding url_graph_iff by force
    next
      assume "k \<in> fst ` set su"
      then obtain us where m: "(k, us) \<in> set su" by auto
      with a obtain u where "u \<in> set us" by (cases us) auto
      with m have "(k, u) \<in> url_graph su" unfolding url_graph_iff by auto
      then show "k \<in> fst ` url_graph su" by force
    qed
  qed
  define L where "L = sort_key fst su"
  have L: "set L = set su" "sorted (map fst L)" "distinct (map fst L)"
    using d by (simp_all add: L_def distinct_map)
  have "sorted_list_of_set (set (map fst L)) = map fst L"
    using L(2,3) by (simp add: sorted_list_of_set.idem_if_sorted_distinct del: set_map)
  then have kl: "sorted_list_of_set (fst ` url_graph su) = map fst L"
    by (simp add: keys L(1))
  have "map (\<lambda>(name, urls). (name, sort urls)) L =
        map ((\<lambda>k. (k, sorted_list_of_set (url_graph su `` {k}))) \<circ> fst) L"
  proof (rule map_cong[OF refl])
    fix x assume "x \<in> set L"
    with L(1) have xs: "x \<in> set su" by (simp only:)
    obtain k us where x: "x = (k, us)" by (cases x)
    from xs have m: "(k, us) \<in> set su" by (simp only: x)
    have uniq: "\<And>vs. (k, vs) \<in> set su \<Longrightarrow> vs = us"
      using d m by (meson eq_key_imp_eq_value)
    have "url_graph su `` {k} = set us"
    proof (rule set_eqI)
      fix u
      have "u \<in> url_graph su `` {k} \<longleftrightarrow> (k, u) \<in> url_graph su" by simp
      also have "\<dots> \<longleftrightarrow> (\<exists>vs. (k, vs) \<in> set su \<and> u \<in> set vs)" by (rule url_graph_iff)
      also have "\<dots> \<longleftrightarrow> u \<in> set us" using m uniq by blast
      finally show "u \<in> url_graph su `` {k} \<longleftrightarrow> u \<in> set us" .
    qed
    moreover have "sorted_list_of_set (set us) = sort us"
      using a[OF m] by (simp add: sorted_list_of_set_sort_remdups distinct_remdups_id)
    ultimately show "(case x of (name, urls) \<Rightarrow> (name, sort urls)) =
        ((\<lambda>k. (k, sorted_list_of_set (url_graph su `` {k}))) \<circ> fst) x"
      by (simp add: x)
  qed
  then show ?thesis by (simp add: kl L_def)
qed

lemma service_lines_graph:
  assumes "well_formed su" "well_formed su'" "url_graph su = url_graph su'"
  shows "service_lines su = service_lines su'"
proof -
  have ne: "su \<noteq> [] \<longleftrightarrow> url_graph su \<noteq> {}" if "well_formed su" for su
  proof (cases su)
    case Nil
    then show ?thesis by (simp add: url_graph_def)
  next
    case (Cons a list)
    obtain k us where a: "a = (k, us)" by (cases a)
    with that Cons have "us \<noteq> []" by (simp add: well_formed_def)
    then obtain u where "u \<in> set us" by (cases us) auto
    then have "(k, u) \<in> url_graph su" unfolding url_graph_iff using Cons a by auto
    with Cons show ?thesis by auto
  qed
  have blocks: "concat (map (\<lambda>(name, urls). backend_block name (sort urls)) (sort_key fst su)) =
        concat (map (\<lambda>(name, urls). backend_block name urls)
                  (map (\<lambda>(name, urls). (name, sort urls)) (sort_key fst su)))" for su
    by (simp add: comp_def split_def)
  show ?thesis
    unfolding service_lines_blocks blocks sorted_entries_canonical[OF assms(1)]
      sorted_entries_canonical[OF assms(2)]
    using ne[OF assms(1)] ne[OF assms(2)] assms(3) by simp
qed

lemma trailer_lines_set:
  assumes "set xs = set ys"
  shows "trailer_lines xs = trailer_lines ys"
proof -
  have "service_lines (service_urls_of xs) = service_lines (service_urls_of ys)"
    by (rule service_lines_graph)
       (simp_all add: service_urls_of_well_formed assms)
  then show ?thesis by (simp add: trailer_lines_def list_ex_iff assms)
qed

lemma preamble_lines_set: "set xs = set ys \<Longrightarrow> preamble_lines xs = preamble_lines ys"
  by (simp add: preamble_lines_def list_ex_iff)


lemma contains_iff: "contains sub s \<longleftrightarrow> (\<exists>a b. s = a @ sub @ b)"
proof (induction s)
  case Nil
  then show ?case by auto
next
  case (Cons c cs)
  show ?case
  proof
    assume "contains sub (c # cs)"
    then consider "take (length sub) (c # cs) = sub" | "contains sub cs" by auto
    then show "\<exists>a b. c # cs = a @ sub @ b"
    proof cases
      case 1
      have "c # cs = [] @ take (length sub) (c # cs) @ drop (length sub) (c # cs)"
        by (simp only: append_take_drop_id append_Nil)
      with 1 show ?thesis by metis
    next
      case 2
      with Cons.IH obtain a b where "cs = a @ sub @ b" by auto
      then have "c # cs = (c # a) @ sub @ b" by simp
      then show ?thesis by blast
    qed
  next
    assume "\<exists>a b. c # cs = a @ sub @ b"
    then obtain a b where ab: "c # cs = a @ sub @ b" by auto
    show "contains sub (c # cs)"
    proof (cases a)
      case Nil
      with ab have "take (length sub) (c # cs) = sub" by simp
      then show ?thesis by simp
    next
      case (Cons x a')
      with ab have "cs = a' @ sub @ b" by simp
      with Cons.IH have "contains sub cs" by blast
      then show ?thesis by simp
    qed
  qed
qed

lemma contains_block_text:
  "ys = a @ xs @ b \<Longrightarrow> contains (block_text xs) (p @ block_text ys @ q)"
  unfolding contains_iff
  by (rule exI[of _ "p @ block_text a"], rule exI[of _ "block_text b @ q"]) simp

lemma contains_preamble:
  "sub = a @ xs @ b \<Longrightarrow> preamble_lines ds = sub \<Longrightarrow>
   contains (block_text xs) (config_text ds)"
  using contains_block_text[of sub a xs b "[]"
      "concat (map (\<lambda>d. block_text (router_block d)) ds) @ block_text (trailer_lines ds)"]
  by (simp add: config_text_parts)

lemma contains_middleware:
  assumes "list_ex (\<lambda>d. d_redirect_to_https d = Some True) ds"
  shows "contains (block_text middleware_lines) (config_text ds)"
proof -
  have "preamble_lines ds = [''http:''] @ middleware_lines @ [''  routers:'']"
    using assms by (simp add: preamble_lines_def)
  from contains_preamble[OF refl this] show ?thesis .
qed

lemma contains_router_block:
  assumes "d \<in> set ds"
  shows "contains (block_text (router_block d)) (config_text ds)"
proof -
  from assms obtain as bs where ds: "ds = as @ d # bs" by (auto dest: split_list)
  have "config_text ds =
      (block_text (preamble_lines ds) @ concat (map (\<lambda>d. block_text (router_block d)) as))
      @ block_text (router_block d)
      @ (concat (map (\<lambda>d. block_text (router_block d)) bs) @ block_text (trailer_lines ds))"
    by (subst config_text_parts) (simp add: ds)
  then show ?thesis unfolding contains_iff by blast
qed

lemma contains_backend:
  assumes "d \<in> set ds" and "service_pair d = Some (n, u)"
  shows "u \<in> set (backend_urls n ds)"
    and "contains (block_text (backend_block n (backend_urls n ds))) (config_text ds)"
proof -
  define su where "su = service_urls_of ds"
  have wf: "well_formed su" by (simp add: su_def service_urls_of_well_formed)
  then have dk: "distinct (map fst su)" by (simp add: well_formed_def)
  from assms have "(n, u) \<in> url_graph su"
    by (simp add: su_def service_urls_of_well_formed) force
  then obtain us where us: "(n, us) \<in> set su" "u \<in> set us" unfolding url_graph_iff by blast
  from dk us(1) have "map_of su n = Some us" by (rule map_of_is_SomeI)
  then have bu: "backend_urls n ds = sort us" by (simp add: backend_urls_def su_def)
  with us(2) show "u \<in> set (backend_urls n ds)" by simp
  from us(1) have ne: "su \<noteq> []" by auto
  from us(1) have "(n, us) \<in> set (sort_key fst su)" by simp
  from split_list[OF this] obtain as bs where sp: "sort_key fst su = as @ (n, us) # bs"
    by blast
  have "service_lines su =
      concat (map (\<lambda>(name, urls). backend_block name (sort urls)) as)
      @ backend_block n (sort us)
      @ concat (map (\<lambda>(name, urls). backend_block name (sort urls)) bs)"
    by (simp add: service_lines_blocks ne sp)
  then have "trailer_lines ds =
      ((if list_ex has_host ds then [] else placeholder_lines) @ [''  services:'']
        @ concat (map (\<lambda>(name, urls). backend_block name (sort urls)) as))
      @ backend_block n (backend_urls n ds)
      @ concat (map (\<lambda>(name, urls). backend_block name (sort urls)) bs)"
    by (simp add: trailer_lines_def su_def bu)
  from contains_block_text[OF this, of
      "block_text (preamble_lines ds) @ concat (map (\<lambda>d. block_text (router_block d)) ds)" "[]"]
  show "contains (block_text (backend_block n (backend_urls n ds))) (config_text ds)"
    by (simp add: config_text_parts)
qed

lemma str_int_9000: "str_int 9000 = ''9000''"
  by code_simp

lemma shop_entry_fields:
  fixes ex :: "domain_record option" and e n ts
  defines "r \<equiv> host_domain_entry e shop_request n (Some ''twinboss_api'') None (Some 9000) ts ex"
  shows "d_entrypoint r = Some ''web''"
    and "d_redirect_to_https r = Some True"
    and "d_service_name r = Some (Some ''twinboss_api'')"
    and "d_target_service r = Some (Some ''twinboss_api'')"
    and "d_target_url r = Some None"
    and "d_target_port r = Some (Some 9000)"
    and "d_target_scheme r = Some ''http''"
    and "d_router_name r = Some (or_str (case ex of None \<Rightarrow> None | Some d \<Rightarrow> d_router_name d) (replace_dots n))"
  unfolding r_def
  by (cases ex; simp add: host_domain_entry_def Let_def shop_request_def
      DomainHostRequest_default_def or_str_def truthy_str_def get_opt_def empty_domain_def)+

lemma shop_record_parts:
  assumes "d_domain r = Some ''shop.example.com''"
    and "d_entrypoint r = Some ''web''"
    and "d_redirect_to_https r = Some True"
    and "d_service_name r = Some (Some ''twinboss_api'')"
    and "d_target_service r = Some (Some ''twinboss_api'')"
    and "d_target_url r = Some None"
    and "d_target_port r = Some (Some 9000)"
    and "d_target_scheme r = Some ''http''"
  shows "router_block r =
         [''    '' @ router_name_of r ''shop.example.com'' @ '':'',
          ''      rule: Host(`shop.example.com`)'',
          ''      entryPoints:'', ''        - web'', ''      service: twinboss_api'',
          ''      middlewares:'', ''        - redirect-to-https'']"
    and "service_pair r = Some (''twinboss_api'', ''http://twinboss_api:9000'')"
proof -
  have sn: "service_name_of r rn = ''twinboss_api''" for rn
    by (simp add: service_name_of_def assms or_str_def get_opt_def)
  have ep: "entrypoint_of r = ''web''"
    by (simp add: entrypoint_of_def assms or_str_def)
  have bu: "backend_url r = ''http://twinboss_api:9000''"
    by (simp add: backend_url_def assms Let_def get_opt_def truthy_str_def str_opt_def
        str_int_9000)
  show "router_block r =
         [''    '' @ router_name_of r ''shop.example.com'' @ '':'',
          ''      rule: Host(`shop.example.com`)'',
          ''      entryPoints:'', ''        - web'', ''      service: twinboss_api'',
          ''      middlewares:'', ''        - redirect-to-https'']"
    by (simp add: router_block_def router_lines_def Let_def assms sn ep)
  show "service_pair r = Some (''twinboss_api'', ''http://twinboss_api:9000'')"
    by (simp add: service_pair_def assms sn bu)
qed


lemma find_SomeD_mem: "find P xs = Some x \<Longrightarrow> x \<in> set xs"
  by (induction xs) (auto split: if_splits)

section \<open>Claims\<close>

text \<open>
  C1. Revision monotonicity. From a persisted document with revision \<open>R\<close>, one
  successful mutation (\<^verbatim>\<open>host_domain\<close>, \<^verbatim>\<open>register_agent\<close>, \<^verbatim>\<open>agents_create\<close>,
  \<^verbatim>\<open>setup_date_storage\<close>) persists a document with revision \<open>R + 1\<close>, and \<open>N\<close>
  requests issued in sequence that all succeed persist one with revision \<open>R + N\<close>.
  A \<^verbatim>\<open>host_domain\<close> request that names neither a target service nor a target URL
  is rejected with status 400 and leaves both files as they were.
\<close>
theorem revision_monotonicity:
  "(w_state_file w = Stored st \<longrightarrow> revision_of st = Some R \<longrightarrow>
      apply_mutation call w = (None, w1) \<longrightarrow> persisted_revision w1 = Some (R + 1))
   \<and> (w_state_file w = Stored st \<longrightarrow> revision_of st = Some R \<longrightarrow>
      run_mutations calls w = (outcomes, w') \<longrightarrow> list_all (\<lambda>x. x = None) outcomes \<longrightarrow>
      persisted_revision w' = Some (R + int (length calls)))
   \<and> (auth e k = None \<longrightarrow> \<not> truthy_str (dh_target_service p) \<longrightarrow>
      \<not> truthy_str (dh_target_url p) \<longrightarrow>
      host_domain e k p v =
        (Inl (HTTPException 400 ''target_service or target_url is required''), v))"
proof (intro conjI impI)
  assume "w_state_file w = Stored st" "revision_of st = Some R"
    "apply_mutation call w = (None, w1)"
  from apply_mutation_revision[OF this]
  show "persisted_revision w1 = Some (R + 1)"
    by (auto simp add: persisted_revision_def)
next
  assume "w_state_file w = Stored st" "revision_of st = Some R"
    "run_mutations calls w = (outcomes, w')" "list_all (\<lambda>x. x = None) outcomes"
  from run_mutations_revision[OF this]
  show "persisted_revision w' = Some (R + int (length calls))"
    by (auto simp add: persisted_revision_def)
next
  assume "auth e k = None" "\<not> truthy_str (dh_target_service p)"
    "\<not> truthy_str (dh_target_url p)"
  then show "host_domain e k p v =
      (Inl (HTTPException 400 ''target_service or target_url is required''), v)"
    by (simp add: host_domain_def)
qed

theorem revision_monotonicity_witness:
  "persisted_revision (snd (apply_mutation (hd example_calls) bootstrapped_world)) = Some 1
   \<and> persisted_revision (snd (run_mutations example_calls bootstrapped_world)) = Some 4
   \<and> host_domain (example_env ''2026-01-01T00:00:05Z'' 1767225605) example_key
        (DomainHostRequest_default ''a.example.com'') bootstrapped_world =
      (Inl (HTTPException 400 ''target_service or target_url is required''),
       bootstrapped_world)"
proof -
  have h1: "w_state_file bootstrapped_world = Stored (default_state ''2026-01-01T00:00:00Z'')"
    by (simp add: bootstrapped_world_def)
  have h2: "revision_of (default_state ''2026-01-01T00:00:00Z'') = Some 0"
    by (simp add: default_state_def revision_of_def empty_meta_def)
  have "fst (apply_mutation (hd example_calls) bootstrapped_world) = None"
    by code_simp
  then have h3: "apply_mutation (hd example_calls) bootstrapped_world =
      (None, snd (apply_mutation (hd example_calls) bootstrapped_world))"
    by (simp add: prod_eq_iff)
  have "fst (run_mutations example_calls bootstrapped_world) = [None, None, None, None]"
    by code_simp
  then have h4: "run_mutations example_calls bootstrapped_world =
      ([None, None, None, None], snd (run_mutations example_calls bootstrapped_world))"
    by (simp add: prod_eq_iff)
  have h5: "list_all (\<lambda>x. x = None) [None, None, None, None :: exn option]"
    by simp
  have h6: "auth (example_env ''2026-01-01T00:00:05Z'' 1767225605) example_key = None"
    by (simp add: auth_def example_env_def example_key_def)
  have h7: "\<not> truthy_str (dh_target_service (DomainHostRequest_default ''a.example.com''))"
    "\<not> truthy_str (dh_target_url (DomainHostRequest_default ''a.example.com''))"
    by (simp_all add: truthy_str_def DomainHostRequest_default_def)
  have len: "int (length example_calls) = 4"
    by (simp add: example_calls_def)
  from revision_monotonicity[THEN conjunct1, rule_format, OF h1 h2 h3]
  have c1: "persisted_revision (snd (apply_mutation (hd example_calls) bootstrapped_world)) = Some 1"
    by simp
  from revision_monotonicity[THEN conjunct2, THEN conjunct1, rule_format, OF h1 h2 h4 h5] len
  have c2: "persisted_revision (snd (run_mutations example_calls bootstrapped_world)) = Some 4"
    by simp
  from revision_monotonicity[THEN conjunct2, THEN conjunct2, rule_format, OF h6 h7]
  have c3: "host_domain (example_env ''2026-01-01T00:00:05Z'' 1767225605) example_key
        (DomainHostRequest_default ''a.example.com'') bootstrapped_world =
      (Inl (HTTPException 400 ''target_service or target_url is required''),
       bootstrapped_world)" .
  from c1 c2 c3 show ?thesis by blast
qed

lemma host_domain_twice:
  assumes n: "normalize_domain (dh_domain p) = Inr n"
    and c1: "host_domain e1 k1 p w = (Inr (r1, v1), w1)"
    and c2: "host_domain e2 k2 p w1 = (Inr (r2, v2), w2)"
  shows "r2 = r1\<lparr>d_updated_at := Some (now_handler e2),
               d_history := Some (history_of r1 @
                 [\<lparr>h_action = ''updated'', h_at = now_handler e2,
                   h_target = (if truthy_str (dh_target_service p)
                               then dh_target_service p else host_target_url p)\<rparr>])\<rparr>"
    and "records_for n (stored_domains w1) = r1 # tl (records_for n (stored_domains w))"
    and "records_for n (stored_domains w2) = r2 # tl (records_for n (stored_domains w))"
    and "records_for n (stored_domains w) = [] \<Longrightarrow> length (history_of r1) = 1"
proof -
  let ?P = "\<lambda>d. d_domain d = Some n"
  from c1 obtain st st1 where
    m1: "host_domain_mut e1 p n (dh_target_service p) (host_target_url p)
           (host_target_port p) (now_handler e1) st = Inr (st1, r1)"
    and d1: "domains_of st = stored_domains w" "stored_domains w1 = domains_of st1"
    using n by (auto elim!: host_domain_Inr)
  from c2 obtain st' st1' where
    m2: "host_domain_mut e2 p n (dh_target_service p) (host_target_url p)
           (host_target_port p) (now_handler e2) st' = Inr (st1', r2)"
    and d2: "domains_of st' = stored_domains w1" "stored_domains w2 = domains_of st1'"
    using n by (auto elim!: host_domain_Inr)
  note a1 = host_domain_mut_Inr[OF m1] and b1 = host_domain_mut_records[OF m1]
  note a2 = host_domain_mut_Inr[OF m2] and b2 = host_domain_mut_records[OF m2]
  from b1(2) d1 d2 have "find ?P (domains_of st') = Some r1" by simp
  with a2(1) have "r2 = host_domain_entry e2 p n (dh_target_service p) (host_target_url p)
      (host_target_port p) (now_handler e2) (Some r1)" by simp
  then show "r2 = r1\<lparr>d_updated_at := Some (now_handler e2),
               d_history := Some (history_of r1 @
                 [\<lparr>h_action = ''updated'', h_at = now_handler e2,
                   h_target = (if truthy_str (dh_target_service p)
                               then dh_target_service p else host_target_url p)\<rparr>])\<rparr>"
    unfolding a1(1) by (simp only: entry_twice)
  from b1(1) d1 show r1: "records_for n (stored_domains w1) = r1 # tl (records_for n (stored_domains w))"
    by simp
  from b2(1) d2 r1 show "records_for n (stored_domains w2) = r2 # tl (records_for n (stored_domains w))"
    by simp
  show "length (history_of r1) = 1" if "records_for n (stored_domains w) = []"
  proof -
    from that d1 have "find ?P (domains_of st) = None"
      by (simp add: find_filter records_for_def)
    with a1(1) show ?thesis by (simp add: entry_history_new)
  qed
qed

text \<open>
  C2. Idempotent upsert. When \<^verbatim>\<open>host_domain\<close> succeeds twice in sequence on the same
  request, the record returned by the second call is the record returned by the
  first with \<^verbatim>\<open>updated_at\<close> replaced and one history entry appended; every other
  field is the same. The second call adds no record for the host name, and when
  the host name had no record before the first call, the document holds exactly
  one record for it afterwards, whose history has length 2.
\<close>
theorem idempotent_upsert:
  "normalize_domain (dh_domain p) = Inr n \<longrightarrow>
   host_domain e1 k1 p w = (Inr (r1, v1), w1) \<longrightarrow>
   host_domain e2 k2 p w1 = (Inr (r2, v2), w2) \<longrightarrow>
     r2 = r1\<lparr>d_updated_at := Some (now_handler e2),
              d_history := Some (history_of r1 @
                [\<lparr>h_action = ''updated'', h_at = now_handler e2,
                  h_target = (if truthy_str (dh_target_service p)
                              then dh_target_service p else host_target_url p)\<rparr>])\<rparr>
     \<and> length (records_for n (stored_domains w2)) = length (records_for n (stored_domains w1))
     \<and> (records_for n (stored_domains w) = [] \<longrightarrow>
          records_for n (stored_domains w2) = [r2] \<and> length (history_of r2) = 2)"
proof (intro impI)
  assume n: "normalize_domain (dh_domain p) = Inr n"
    and c1: "host_domain e1 k1 p w = (Inr (r1, v1), w1)"
    and c2: "host_domain e2 k2 p w1 = (Inr (r2, v2), w2)"
  note t = host_domain_twice[OF n c1 c2]
  have "length (history_of r2) = 2" if "records_for n (stored_domains w) = []"
    using t(4)[OF that] by (subst t(1)) (simp add: history_of_def)
  with t(1,2,3) show "r2 = r1\<lparr>d_updated_at := Some (now_handler e2),
              d_history := Some (history_of r1 @
                [\<lparr>h_action = ''updated'', h_at = now_handler e2,
                  h_target = (if truthy_str (dh_target_service p)
                              then dh_target_service p else host_target_url p)\<rparr>])\<rparr>
     \<and> length (records_for n (stored_domains w2)) = length (records_for n (stored_domains w1))
     \<and> (records_for n (stored_domains w) = [] \<longrightarrow>
          records_for n (stored_domains w2) = [r2] \<and> length (history_of r2) = 2)"
    by simp
qed


lemma entry_existing_fields:
  "d_id (host_domain_entry e p n tsv tu tp ts (Some d)) = d_id d"
  "d_created_at (host_domain_entry e p n tsv tu tp ts (Some d)) = d_created_at d"
  by (simp_all add: host_domain_entry_def Let_def)

lemma run_mutations_sorted_unique:
  "sorted_unique (stored_domains w) \<Longrightarrow>
   sorted_unique (stored_domains (snd (run_mutations calls w)))"
proof (induction calls arbitrary: w)
  case Nil
  then show ?case by simp
next
  case (Cons call calls)
  have "snd (run_mutations (call # calls) w) =
      snd (run_mutations calls (snd (apply_mutation call w)))"
    by (cases "apply_mutation call w";
        cases "run_mutations calls (snd (apply_mutation call w))") simp
  with Cons.IH[OF apply_mutation_sorted_unique[OF Cons.prems, of call]]
  show ?case by simp
qed

lemma host_domain_same_host:
  assumes inv: "sorted_unique (stored_domains w)"
    and n1: "normalize_domain (dh_domain p1) = Inr h"
    and n2: "normalize_domain (dh_domain p2) = Inr h"
    and c1: "host_domain e1 k1 p1 w = (Inr (r1, v1), w1)"
    and c2: "host_domain e2 k2 p2 w1 = (Inr (r2, v2), w2)"
  shows "records_for h (stored_domains w1) = [r1]"
    and "records_for h (stored_domains w2) = [r2]"
    and "d_domain r2 = Some h" and "d_id r2 = d_id r1" and "d_created_at r2 = d_created_at r1"
proof -
  let ?P = "\<lambda>d. d_domain d = Some h"
  from c1 obtain st st1 where
    m1: "host_domain_mut e1 p1 h (dh_target_service p1) (host_target_url p1)
           (host_target_port p1) (now_handler e1) st = Inr (st1, r1)"
    and d1: "domains_of st = stored_domains w" "stored_domains w1 = domains_of st1"
    using n1 by (auto elim!: host_domain_Inr)
  from c2 obtain st' st1' where
    m2: "host_domain_mut e2 p2 h (dh_target_service p2) (host_target_url p2)
           (host_target_port p2) (now_handler e2) st' = Inr (st1', r2)"
    and d2: "domains_of st' = stored_domains w1" "stored_domains w2 = domains_of st1'"
    using n2 by (auto elim!: host_domain_Inr)
  have s1: "sorted_unique (stored_domains w1)"
    using host_domain_sorted_unique[OF inv, of e1 k1 p1] c1 by simp
  have s2: "sorted_unique (stored_domains w2)"
    using host_domain_sorted_unique[OF s1, of e2 k2 p2] c2 by simp
  note a1 = host_domain_mut_Inr[OF m1] and b1 = host_domain_mut_records[OF m1]
  note a2 = host_domain_mut_Inr[OF m2] and b2 = host_domain_mut_records[OF m2]
  from b1(1) d1 have "r1 \<in> set (stored_domains w1)"
    by (metis filter_is_subset list.set_intros(1) records_for_def subsetD)
  from sorted_unique_one_record[OF s1 this a1(4)]
  show "records_for h (stored_domains w1) = [r1]" .
  from b2(1) d2 have "r2 \<in> set (stored_domains w2)"
    by (metis filter_is_subset list.set_intros(1) records_for_def subsetD)
  from sorted_unique_one_record[OF s2 this a2(4)]
  show "records_for h (stored_domains w2) = [r2]" .
  show "d_domain r2 = Some h" by (rule a2(4))
  from b1(2) d1 d2 have "find ?P (domains_of st') = Some r1" by simp
  with a2(1) show "d_id r2 = d_id r1" "d_created_at r2 = d_created_at r1"
    by (simp_all add: entry_existing_fields)
qed

lemma normalize_examples:
  "normalize_domain ''HTTPS://A.example.com/'' = Inr ''a.example.com''"
  "normalize_domain ''a.example.com'' = Inr ''a.example.com''"
  by code_simp+

text \<open>
  C3. The domain list stays sorted by host name with one record per host name.
  The bootstrap document has the property, and every mutation request (whatever
  its outcome) and every sequence of them preserves it. A host name written with
  or without a scheme, with or without a closing slash and in any letter case
  normalizes to its lower case; so two successful \<^verbatim>\<open>host_domain\<close> requests that
  spell one host name in two such ways leave exactly one record for it, keyed by
  the lower-case host name: the second updates the record the first one made. The
  same holds of any two domain strings that normalize to the same host name. The
  strings \<^verbatim>\<open>HTTPS://A.example.com/\<close> and \<^verbatim>\<open>a.example.com\<close> both normalize to
  \<^verbatim>\<open>a.example.com\<close>.
\<close>
theorem domains_sorted_unique:
  "sorted_unique (domains_of (default_state now))
   \<and> (sorted_unique (stored_domains w) \<longrightarrow>
        sorted_unique (stored_domains (snd (apply_mutation call w)))
        \<and> sorted_unique (stored_domains (snd (run_mutations calls w))))
   \<and> (valid_host h0 \<longrightarrow> scheme_ok sc0 \<longrightarrow>
        normalize_domain (spelled sc0 h0 sl0) = Inr (lower h0))
   \<and> (sorted_unique (stored_domains w) \<longrightarrow>
        valid_host h1 \<longrightarrow> valid_host h2 \<longrightarrow> lower h1 = lower h2 \<longrightarrow>
        scheme_ok sc1 \<longrightarrow> scheme_ok sc2 \<longrightarrow>
        dh_domain p1 = spelled sc1 h1 sl1 \<longrightarrow> dh_domain p2 = spelled sc2 h2 sl2 \<longrightarrow>
        host_domain e1 k1 p1 w = (Inr (r1, v1), w1) \<longrightarrow>
        host_domain e2 k2 p2 w1 = (Inr (r2, v2), w2) \<longrightarrow>
          records_for (lower h1) (stored_domains w1) = [r1]
          \<and> records_for (lower h1) (stored_domains w2) = [r2]
          \<and> d_domain r2 = Some (lower h1) \<and> d_id r2 = d_id r1
          \<and> d_created_at r2 = d_created_at r1)
   \<and> (sorted_unique (stored_domains w) \<longrightarrow>
        normalize_domain (dh_domain p1) = Inr h \<longrightarrow>
        normalize_domain (dh_domain p2) = Inr h \<longrightarrow>
        host_domain e1 k1 p1 w = (Inr (r1, v1), w1) \<longrightarrow>
        host_domain e2 k2 p2 w1 = (Inr (r2, v2), w2) \<longrightarrow>
          records_for h (stored_domains w1) = [r1]
          \<and> records_for h (stored_domains w2) = [r2]
          \<and> d_domain r2 = Some h \<and> d_id r2 = d_id r1 \<and> d_created_at r2 = d_created_at r1)
   \<and> normalize_domain ''HTTPS://A.example.com/'' = Inr ''a.example.com''
   \<and> normalize_domain ''a.example.com'' = Inr ''a.example.com''"
proof (intro conjI impI)
  show "sorted_unique (domains_of (default_state now))"
    by (simp add: sorted_unique_def)
next
  assume "sorted_unique (stored_domains w)"
  then show "sorted_unique (stored_domains (snd (apply_mutation call w)))"
    by (rule apply_mutation_sorted_unique)
next
  assume "sorted_unique (stored_domains w)"
  then show "sorted_unique (stored_domains (snd (run_mutations calls w)))"
    by (rule run_mutations_sorted_unique)
next
  assume "valid_host h0" "scheme_ok sc0"
  then show "normalize_domain (spelled sc0 h0 sl0) = Inr (lower h0)"
    by (rule normalize_spelled)
next
  assume a: "sorted_unique (stored_domains w)"
    "valid_host h1" "valid_host h2" "lower h1 = lower h2" "scheme_ok sc1" "scheme_ok sc2"
    "dh_domain p1 = spelled sc1 h1 sl1" "dh_domain p2 = spelled sc2 h2 sl2"
    "host_domain e1 k1 p1 w = (Inr (r1, v1), w1)"
    "host_domain e2 k2 p2 w1 = (Inr (r2, v2), w2)"
  have n1: "normalize_domain (dh_domain p1) = Inr (lower h1)"
    by (simp only: a(7) normalize_spelled[OF a(2) a(5)])
  have n2: "normalize_domain (dh_domain p2) = Inr (lower h1)"
    by (simp only: a(8) a(4) normalize_spelled[OF a(3) a(6)])
  note t = host_domain_same_host[OF a(1) n1 n2 a(9) a(10)]
  show "records_for (lower h1) (stored_domains w1) = [r1]" by (rule t(1))
  show "records_for (lower h1) (stored_domains w2) = [r2]" by (rule t(2))
  show "d_domain r2 = Some (lower h1)" by (rule t(3))
  show "d_id r2 = d_id r1" by (rule t(4))
  show "d_created_at r2 = d_created_at r1" by (rule t(5))
next
  assume a: "sorted_unique (stored_domains w)"
    "normalize_domain (dh_domain p1) = Inr h" "normalize_domain (dh_domain p2) = Inr h"
    "host_domain e1 k1 p1 w = (Inr (r1, v1), w1)"
    "host_domain e2 k2 p2 w1 = (Inr (r2, v2), w2)"
  note t = host_domain_same_host[OF a]
  show "records_for h (stored_domains w1) = [r1]" by (rule t(1))
  show "records_for h (stored_domains w2) = [r2]" by (rule t(2))
  show "d_domain r2 = Some h" by (rule t(3))
  show "d_id r2 = d_id r1" by (rule t(4))
  show "d_created_at r2 = d_created_at r1" by (rule t(5))
next
  show "normalize_domain ''HTTPS://A.example.com/'' = Inr ''a.example.com''"
    by (rule normalize_examples(1))
next
  show "normalize_domain ''a.example.com'' = Inr ''a.example.com''"
    by (rule normalize_examples(2))
qed


theorem idempotent_upsert_witness:
  "fst (projr (fst upsert_second)) =
     (fst (projr (fst upsert_first)))
       \<lparr>d_updated_at := Some ''2026-01-01T00:00:02Z'',
        d_history := Some
          [\<lparr>h_action = ''provisioned'', h_at = ''2026-01-01T00:00:01Z'',
            h_target = Some ''fastmcp''\<rparr>,
           \<lparr>h_action = ''updated'', h_at = ''2026-01-01T00:00:02Z'',
            h_target = Some ''fastmcp''\<rparr>]\<rparr>
   \<and> length (records_for ''a.example.com'' (stored_domains (snd upsert_second))) = 1
   \<and> records_for ''a.example.com'' (stored_domains (snd upsert_second))
       = [fst (projr (fst upsert_second))]
   \<and> length (history_of (fst (projr (fst upsert_second)))) = 2"
proof -
  have n: "normalize_domain (dh_domain upsert_request) = Inr ''a.example.com''"
    by code_simp
  have c1: "host_domain first_env example_key upsert_request fresh_world =
      (Inr (fst (projr (fst upsert_first)), snd (projr (fst upsert_first))), snd upsert_first)"
    by code_simp
  have c2: "host_domain second_env example_key upsert_request (snd upsert_first) =
      (Inr (fst (projr (fst upsert_second)), snd (projr (fst upsert_second))), snd upsert_second)"
    by code_simp
  have e: "records_for ''a.example.com'' (stored_domains fresh_world) = []"
    by (simp add: records_for_def stored_domains_def fresh_world_def)
  have l1: "length (records_for ''a.example.com'' (stored_domains (snd upsert_first))) = 1"
    by code_simp
  have h1: "history_of (fst (projr (fst upsert_first))) =
      [\<lparr>h_action = ''provisioned'', h_at = ''2026-01-01T00:00:01Z'',
        h_target = Some ''fastmcp''\<rparr>]"
    by code_simp
  have v: "now_handler second_env = ''2026-01-01T00:00:02Z''"
    "truthy_str (dh_target_service upsert_request)"
    "dh_target_service upsert_request = Some ''fastmcp''"
    by (simp_all add: second_env_def example_env_def upsert_request_def truthy_str_def
        DomainHostRequest_default_def)
  note t = idempotent_upsert[rule_format, OF n c1 c2]
  from t[THEN conjunct1] h1 v
  have a: "fst (projr (fst upsert_second)) =
     (fst (projr (fst upsert_first)))
       \<lparr>d_updated_at := Some ''2026-01-01T00:00:02Z'',
        d_history := Some
          [\<lparr>h_action = ''provisioned'', h_at = ''2026-01-01T00:00:01Z'',
            h_target = Some ''fastmcp''\<rparr>,
           \<lparr>h_action = ''updated'', h_at = ''2026-01-01T00:00:02Z'',
            h_target = Some ''fastmcp''\<rparr>]\<rparr>"
    by simp
  from t[THEN conjunct2, THEN conjunct1] l1
  have b: "length (records_for ''a.example.com'' (stored_domains (snd upsert_second))) = 1"
    by simp
  from t[THEN conjunct2, THEN conjunct2, rule_format, OF e]
  have c: "records_for ''a.example.com'' (stored_domains (snd upsert_second))
       = [fst (projr (fst upsert_second))]
     \<and> length (history_of (fst (projr (fst upsert_second)))) = 2" .
  from a b c show ?thesis by blast
qed

theorem domains_sorted_unique_witness:
  "sorted_unique (stored_domains (snd (apply_mutation (hd example_calls) bootstrapped_world)))
   \<and> sorted_unique (stored_domains (snd (run_mutations example_calls bootstrapped_world)))
   \<and> normalize_domain (spelled (Some ''HTTPS'') ''A.example.com'' True) = Inr ''a.example.com''
   \<and> normalize_domain (spelled None ''a.example.com'' False) = Inr ''a.example.com''
   \<and> dh_domain cased_request = spelled (Some ''HTTPS'') ''A.example.com'' True
   \<and> dh_domain upsert_request = spelled None ''a.example.com'' False
   \<and> records_for ''a.example.com'' (stored_domains (snd cased_first))
       = [fst (projr (fst cased_first))]
   \<and> records_for ''a.example.com'' (stored_domains (snd cased_second))
       = [fst (projr (fst cased_second))]
   \<and> d_domain (fst (projr (fst cased_second))) = Some ''a.example.com''
   \<and> d_id (fst (projr (fst cased_second))) = d_id (fst (projr (fst cased_first)))
   \<and> length (stored_domains (snd cased_second)) = 1"
proof -
  have i0: "sorted_unique (stored_domains bootstrapped_world)"
    by (simp add: bootstrapped_world_def stored_domains_def sorted_unique_def)
  have i1: "sorted_unique (stored_domains fresh_world)"
    by (simp add: fresh_world_def stored_domains_def sorted_unique_def)
  have vh: "valid_host ''A.example.com''" "valid_host ''a.example.com''"
    by code_simp+
  have vs: "scheme_ok (Some ''HTTPS'')" "scheme_ok None"
    by code_simp+
  have lw: "lower ''A.example.com'' = ''a.example.com''"
    "lower ''a.example.com'' = ''a.example.com''"
    by code_simp+
  have le: "lower ''A.example.com'' = lower ''a.example.com''"
    by (simp only: lw)
  have s1: "dh_domain cased_request = spelled (Some ''HTTPS'') ''A.example.com'' True"
    by code_simp
  have s2: "dh_domain upsert_request = spelled None ''a.example.com'' False"
    by code_simp
  have n1: "normalize_domain (dh_domain cased_request) = Inr ''a.example.com''"
    by code_simp
  have n2: "normalize_domain (dh_domain upsert_request) = Inr ''a.example.com''"
    by code_simp
  have c1: "host_domain first_env example_key cased_request fresh_world =
      (Inr (fst (projr (fst cased_first)), snd (projr (fst cased_first))), snd cased_first)"
    by code_simp
  have c2: "host_domain second_env example_key upsert_request (snd cased_first) =
      (Inr (fst (projr (fst cased_second)), snd (projr (fst cased_second))), snd cased_second)"
    by code_simp
  have l: "length (stored_domains (snd cased_second)) = 1"
    by code_simp
  note t = domains_sorted_unique[THEN conjunct2]
  from t[THEN conjunct1, rule_format, OF i0]
  have a: "sorted_unique (stored_domains (snd (apply_mutation (hd example_calls) bootstrapped_world)))
    \<and> sorted_unique (stored_domains (snd (run_mutations example_calls bootstrapped_world)))" .
  from t[THEN conjunct2, THEN conjunct1, rule_format, OF vh(1) vs(1)]
  have m1: "normalize_domain (spelled (Some ''HTTPS'') ''A.example.com'' True)
      = Inr ''a.example.com''"
    by (simp only: lw)
  from t[THEN conjunct2, THEN conjunct1, rule_format, OF vh(2) vs(2)]
  have m2: "normalize_domain (spelled None ''a.example.com'' False) = Inr ''a.example.com''"
    by (simp only: lw)
  from t[THEN conjunct2, THEN conjunct2, THEN conjunct1, rule_format,
      OF i1 vh(1) vh(2) le vs(1) vs(2) s1 s2 c1 c2]
  have b: "records_for ''a.example.com'' (stored_domains (snd cased_first))
       = [fst (projr (fst cased_first))]
   \<and> records_for ''a.example.com'' (stored_domains (snd cased_second))
       = [fst (projr (fst cased_second))]
   \<and> d_domain (fst (projr (fst cased_second))) = Some ''a.example.com''
   \<and> d_id (fst (projr (fst cased_second))) = d_id (fst (projr (fst cased_first)))
   \<and> d_created_at (fst (projr (fst cased_second))) = d_created_at (fst (projr (fst cased_first)))"
    by (simp only: lw)
  from t[THEN conjunct2, THEN conjunct2, THEN conjunct2, THEN conjunct1, rule_format,
      OF i1 n1 n2 c1 c2]
  have b': "records_for ''a.example.com'' (stored_domains (snd cased_second))
       = [fst (projr (fst cased_second))]" by (rule conjunct2[THEN conjunct1])
  from a m1 m2 s1 s2 b l show ?thesis by blast
qed

lemma routers_loop_skip:
  "list_all (\<lambda>d. \<not> truthy_str (d_domain d)) ds \<Longrightarrow> routers_loop ds acc = acc"
proof (induction ds arbitrary: acc)
  case Nil
  then show ?case by simp
next
  case (Cons d ds)
  obtain l rw su where acc: "acc = (l, rw, su)" by (cases acc)
  from Cons show ?case
    by (simp add: acc truthy_str_def split: option.splits)
qed

text \<open>
  C9. When the list given to the generator is empty or holds only records without
  a host name (key absent or empty), the text it writes to the artifact is the
  header, the redirect middleware block if one of those records asks for the
  redirect, and then exactly the placeholder router (catch-all rule, service
  \<^verbatim>\<open>noop\<close>) and the backend \<^verbatim>\<open>noop\<close> with the server URL \<^verbatim>\<open>http://127.0.0.1:9000\<close>: no
  other router and no other backend. The text is not empty.
\<close>

theorem placeholder_when_no_hostname:
  "list_all (\<lambda>d. \<not> truthy_str (d_domain d)) domains \<Longrightarrow>
   config_text domains =
     join [CHR 0x0A]
       ([''http:'']
        @ (if list_ex (\<lambda>d. d_redirect_to_https d = Some True) domains
           then [''  middlewares:'', ''    redirect-to-https:'', ''      redirectScheme:'',
                 ''        scheme: https'', ''        permanent: true'']
           else [])
        @ [''  routers:'',
           ''    placeholder:'',
           ''      rule: HostRegexp(`{any:.+}`)'',
           ''      service: noop'',
           ''  services:'',
           ''    noop:'',
           ''      loadBalancer:'',
           ''        servers:'',
           ''          - url: '' @ [CHR 0x22] @ ''http://127.0.0.1:9000'' @ [CHR 0x22]])
     @ [CHR 0x0A]
   \<and> w_traefik (write_domain_dynamic_config domains w) = Some (config_text domains)
   \<and> config_text domains \<noteq> []
   \<and> concat (map router_block domains) = []
   \<and> service_urls_of domains = []"
proof -
  assume a: "list_all (\<lambda>d. \<not> truthy_str (d_domain d)) domains"
  then have l: "config_lines domains =
     [''http:'']
     @ (if list_ex (\<lambda>d. d_redirect_to_https d = Some True) domains
        then [''  middlewares:'', ''    redirect-to-https:'', ''      redirectScheme:'',
              ''        scheme: https'', ''        permanent: true'']
        else [])
     @ [''  routers:'',
        ''    placeholder:'',
        ''      rule: HostRegexp(`{any:.+}`)'',
        ''      service: noop'',
        ''  services:'',
        ''    noop:'',
        ''      loadBalancer:'',
        ''        servers:'',
        ''          - url: '' @ [CHR 0x22] @ ''http://127.0.0.1:9000'' @ [CHR 0x22]]"
    by (simp add: config_lines_def Let_def routers_loop_skip service_lines_def)
  have t: "config_text domains = join [CHR 0x0A] (config_lines domains) @ [CHR 0x0A]"
    by (rule config_text_def)
  have p: "routers_loop domains ([], False, []) = ([], False, [])"
    using a by (rule routers_loop_skip)
  then have rb: "concat (map router_block domains) = []" "service_urls_of domains = []"
    by (simp_all add: routers_loop_parts service_urls_of_def)
  have "config_text domains \<noteq> []" by (simp add: t)
  moreover have "w_traefik (write_domain_dynamic_config domains w) = Some (config_text domains)"
    by (simp add: write_domain_dynamic_config_def)
  moreover note t[unfolded l] rb
  ultimately show ?thesis by (simp only: simp_thms)
qed

theorem placeholder_when_no_hostname_witness:
  "config_text [] =
     join [CHR 0x0A]
     [''http:'', ''  routers:'', ''    placeholder:'', ''      rule: HostRegexp(`{any:.+}`)'',
      ''      service: noop'', ''  services:'', ''    noop:'', ''      loadBalancer:'',
      ''        servers:'',
      ''          - url: '' @ [CHR 0x22] @ ''http://127.0.0.1:9000'' @ [CHR 0x22]] @ [CHR 0x0A]
   \<and> w_traefik (write_domain_dynamic_config [] fresh_world) = Some (config_text [])
   \<and> config_text [empty_domain\<lparr>d_redirect_to_https := Some True\<rparr>,
                   empty_domain\<lparr>d_domain := Some []\<rparr>] =
     join [CHR 0x0A]
     [''http:'', ''  middlewares:'', ''    redirect-to-https:'', ''      redirectScheme:'',
      ''        scheme: https'', ''        permanent: true'',
      ''  routers:'', ''    placeholder:'', ''      rule: HostRegexp(`{any:.+}`)'',
      ''      service: noop'', ''  services:'', ''    noop:'', ''      loadBalancer:'',
      ''        servers:'',
      ''          - url: '' @ [CHR 0x22] @ ''http://127.0.0.1:9000'' @ [CHR 0x22]] @ [CHR 0x0A]"
proof -
  have h1: "list_all (\<lambda>d. \<not> truthy_str (d_domain d)) []" by simp
  have h2: "list_all (\<lambda>d. \<not> truthy_str (d_domain d))
      [empty_domain\<lparr>d_redirect_to_https := Some True\<rparr>, empty_domain\<lparr>d_domain := Some []\<rparr>]"
    by (simp add: truthy_str_def empty_domain_def)
  have r: "list_ex (\<lambda>d. d_redirect_to_https d = Some True)
      [empty_domain\<lparr>d_redirect_to_https := Some True\<rparr>, empty_domain\<lparr>d_domain := Some []\<rparr>]"
    by simp
  from placeholder_when_no_hostname[OF h1, of fresh_world]
  have a: "config_text [] =
     join [CHR 0x0A]
     [''http:'', ''  routers:'', ''    placeholder:'', ''      rule: HostRegexp(`{any:.+}`)'',
      ''      service: noop'', ''  services:'', ''    noop:'', ''      loadBalancer:'',
      ''        servers:'',
      ''          - url: '' @ [CHR 0x22] @ ''http://127.0.0.1:9000'' @ [CHR 0x22]] @ [CHR 0x0A]"
    and b: "w_traefik (write_domain_dynamic_config [] fresh_world) = Some (config_text [])"
    by simp_all
  from placeholder_when_no_hostname[OF h2, of fresh_world, THEN conjunct1]
  have c: "config_text [empty_domain\<lparr>d_redirect_to_https := Some True\<rparr>,
                   empty_domain\<lparr>d_domain := Some []\<rparr>] =
     join [CHR 0x0A]
     [''http:'', ''  middlewares:'', ''    redirect-to-https:'', ''      redirectScheme:'',
      ''        scheme: https'', ''        permanent: true'',
      ''  routers:'', ''    placeholder:'', ''      rule: HostRegexp(`{any:.+}`)'',
      ''      service: noop'', ''  services:'', ''    noop:'', ''      loadBalancer:'',
      ''        servers:'',
      ''          - url: '' @ [CHR 0x22] @ ''http://127.0.0.1:9000'' @ [CHR 0x22]] @ [CHR 0x0A]"
    by (simp only: r if_True append_Cons append_Nil)
  from a b c show ?thesis by (simp only: simp_thms)
qed

text \<open>C4 as stated fails: the routers are written in list order, so the same two
  records in the other order give another text.\<close>

theorem order_dependent_counterexample:
  "mset [record_a, record_b] = mset [record_b, record_a]
   \<and> config_text [record_a, record_b] \<noteq> config_text [record_b, record_a]"
proof -
  have "config_text [record_a, record_b] \<noteq> config_text [record_b, record_a]"
    by code_simp
  then show ?thesis by simp
qed

lemma sorted_same_records:
  assumes "mset xs = mset ys" and "\<forall>d \<in> set xs. d_domain d \<noteq> None"
    and "distinct (map d_domain xs)"
  shows "sort_key hostname_key xs = sort_key hostname_key ys"
proof (rule sort_key_inj_key_eq)
  show "mset xs = mset (sort_key hostname_key ys)" using assms(1) by simp
  show "sorted (map hostname_key (sort_key hostname_key ys))" by simp
  show "inj_on hostname_key (set xs)"
  proof (rule inj_onI)
    fix a b assume ab: "a \<in> set xs" "b \<in> set xs" "hostname_key a = hostname_key b"
    with assms(2) have "d_domain a = d_domain b"
      by (auto simp add: hostname_key_def split: option.splits)
    with assms(3) ab show "a = b" by (simp add: distinct_map inj_on_def)
  qed
qed

text \<open>
  C4 as amended. The generator is a function of the list it is given: the artifact
  it writes does not depend on what was there before. Its text is the header and
  the middleware block, then the router entries of the records in the order of
  the list, then the services block. For a permutation of the list the header,
  the middleware block and the services block are the same and the router entries
  are the same entries in the order of the permuted list; so the text is
  byte-identical whenever the two lists give their router entries in the same
  order, and in particular once both lists are sorted by host name, as
  \<^verbatim>\<open>host_domain\<close> sorts the list before it is persisted.
\<close>

theorem permutation_reorders_routers_only:
  "w_traefik (write_domain_dynamic_config xs w) = Some (config_text xs)
   \<and> w_traefik (write_domain_dynamic_config xs w) = w_traefik (write_domain_dynamic_config xs w')
   \<and> config_text xs =
        block_text (preamble_lines xs)
        @ concat (map (\<lambda>d. block_text (router_block d)) xs)
        @ block_text (trailer_lines xs)
   \<and> (mset xs = mset ys \<longrightarrow>
        preamble_lines ys = preamble_lines xs
        \<and> trailer_lines ys = trailer_lines xs
        \<and> mset (map router_block ys) = mset (map router_block xs)
        \<and> config_text ys =
             block_text (preamble_lines xs)
             @ concat (map (\<lambda>d. block_text (router_block d)) ys)
             @ block_text (trailer_lines xs)
        \<and> (map router_block xs = map router_block ys \<longrightarrow> config_text xs = config_text ys)
        \<and> (distinct (map d_domain xs) \<longrightarrow>
             sort_by_domain xs = Inr xs' \<longrightarrow> sort_by_domain ys = Inr ys' \<longrightarrow>
             config_text xs' = config_text ys'))
   \<and> (sorted_unique xs \<longrightarrow> sorted_unique ys \<longrightarrow> set xs = set ys \<longrightarrow>
        config_text xs = config_text ys)"
proof (intro conjI impI)
  show "w_traefik (write_domain_dynamic_config xs w) = Some (config_text xs)"
    by (simp add: write_domain_dynamic_config_def)
  show "w_traefik (write_domain_dynamic_config xs w) = w_traefik (write_domain_dynamic_config xs w')"
    by (simp add: write_domain_dynamic_config_def)
  show "config_text xs =
        block_text (preamble_lines xs)
        @ concat (map (\<lambda>d. block_text (router_block d)) xs)
        @ block_text (trailer_lines xs)"
    by (rule config_text_parts)
next
  assume m: "mset xs = mset ys"
  then have s: "set ys = set xs" by (metis mset_eq_setD)
  show p: "preamble_lines ys = preamble_lines xs" by (rule preamble_lines_set[OF s])
  show t: "trailer_lines ys = trailer_lines xs" by (rule trailer_lines_set[OF s])
  show "mset (map router_block ys) = mset (map router_block xs)"
    by (simp add: m)
  show "config_text ys =
        block_text (preamble_lines xs)
        @ concat (map (\<lambda>d. block_text (router_block d)) ys)
        @ block_text (trailer_lines xs)"
    by (simp only: config_text_parts[of ys] p t)
next
  assume m: "mset xs = mset ys" and r: "map router_block xs = map router_block ys"
  from m have s: "set ys = set xs" by (metis mset_eq_setD)
  note p = preamble_lines_set[OF s] and t = trailer_lines_set[OF s]
  have "concat (map (\<lambda>d. block_text (router_block d)) zs)
      = concat (map block_text (map router_block zs))" for zs
    by (simp add: comp_def)
  then show "config_text xs = config_text ys"
    by (simp only: config_text_parts[of ys] config_text_parts[of xs] p t r)
next
  assume m: "mset xs = mset ys" and a: "distinct (map d_domain xs)"
    "sort_by_domain xs = Inr xs'" "sort_by_domain ys = Inr ys'"
  from sort_by_domain_Inr[OF a(2)] sort_by_domain_Inr[OF a(3)]
    sorted_same_records[OF m _ a(1)]
  have "xs' = ys'" by simp
  then show "config_text xs' = config_text ys'" by simp
next
  assume a: "sorted_unique xs" "sorted_unique ys" "set xs = set ys"
  from a(1) have x: "\<forall>d \<in> set xs. d_domain d \<noteq> None" "distinct (map hostname_key xs)"
    "sorted (map hostname_key xs)"
    by (simp_all add: sorted_unique_def strict_sorted_iff list_ex_iff)
  from a(2) have y: "distinct (map hostname_key ys)" "sorted (map hostname_key ys)"
    by (simp_all add: sorted_unique_def strict_sorted_iff list_ex_iff)
  from x(2) y(1) have "distinct xs" "distinct ys" by (simp_all add: distinct_map)
  with a(3) have m: "mset xs = mset ys" by (simp add: set_eq_iff_mset_eq_distinct)
  from x(2) have "inj_on hostname_key (set xs)" by (simp add: distinct_map)
  from sort_key_inj_key_eq[OF m this y(2)] x(3)
  have "xs = ys" by (simp add: sort_key_id_if_sorted)
  then show "config_text xs = config_text ys" by simp
qed

theorem permutation_reorders_routers_only_witness:
  "config_text [record_b, record_a] =
        block_text (preamble_lines [record_a, record_b])
        @ (block_text (router_block record_b) @ block_text (router_block record_a))
        @ block_text (trailer_lines [record_a, record_b])
   \<and> config_text [record_a, record_b] =
        block_text (preamble_lines [record_a, record_b])
        @ (block_text (router_block record_a) @ block_text (router_block record_b))
        @ block_text (trailer_lines [record_a, record_b])
   \<and> trailer_lines [record_b, record_a] = trailer_lines [record_a, record_b]
   \<and> sort_by_domain [record_b, record_a] = Inr [record_a, record_b]
   \<and> sort_by_domain [record_a, record_b] = Inr [record_a, record_b]
   \<and> config_text [record_a, record_b] = config_text [record_a, record_b]"
proof -
  have m: "mset [record_a, record_b] = mset [record_b, record_a]" by simp
  have d: "distinct (map d_domain [record_a, record_b])" by code_simp
  have s1: "sort_by_domain [record_a, record_b] = Inr [record_a, record_b]" by code_simp
  have s2: "sort_by_domain [record_b, record_a] = Inr [record_a, record_b]" by code_simp
  have u: "sorted_unique [record_a, record_b]" by code_simp
  note t = permutation_reorders_routers_only[of "[record_a, record_b]" fresh_world fresh_world
      "[record_b, record_a]" "[record_a, record_b]" "[record_a, record_b]"]
  note p = t[THEN conjunct2, THEN conjunct2, THEN conjunct2, THEN conjunct1, rule_format, OF m]
  from t[THEN conjunct2, THEN conjunct2, THEN conjunct1]
  have a: "config_text [record_a, record_b] =
        block_text (preamble_lines [record_a, record_b])
        @ (block_text (router_block record_a) @ block_text (router_block record_b))
        @ block_text (trailer_lines [record_a, record_b])"
    by simp
  from p[THEN conjunct2, THEN conjunct2, THEN conjunct2, THEN conjunct1]
  have b: "config_text [record_b, record_a] =
        block_text (preamble_lines [record_a, record_b])
        @ (block_text (router_block record_b) @ block_text (router_block record_a))
        @ block_text (trailer_lines [record_a, record_b])"
    by simp
  from p[THEN conjunct2, THEN conjunct1]
  have c: "trailer_lines [record_b, record_a] = trailer_lines [record_a, record_b]" .
  from p[THEN conjunct2, THEN conjunct2, THEN conjunct2, THEN conjunct2, THEN conjunct2,
      rule_format, OF d s1 s2]
  have e: "config_text [record_a, record_b] = config_text [record_a, record_b]" .
  from a b c s1 s2 e show ?thesis by (simp only: simp_thms)
qed

lemma shop_values:
  "normalize_domain (dh_domain shop_request) = Inr ''shop.example.com''"
  "host_target_url shop_request = None"
  "host_target_port shop_request = Some 9000"
  "dh_target_service shop_request = Some ''twinboss_api''"
  by code_simp+

text \<open>The generator reads none of the fields that carry the clock, and the digest
  only when the record names no service\<close>

lemma service_name_of_named:
  "truthy_str (get_opt (d_service_name r)) \<Longrightarrow>
   service_name_of (r\<lparr>d_id := i\<rparr>) rn = service_name_of r rn"
  by (auto simp add: service_name_of_def or_str_def truthy_str_def split: option.splits)

lemma config_lines_single_named:
  assumes "truthy_str (get_opt (d_service_name r))"
  shows "config_lines [r\<lparr>d_id := i, d_created_at := a, d_updated_at := b, d_history := h\<rparr>]
         = config_lines [r]"
proof -
  let ?r' = "r\<lparr>d_id := i, d_created_at := a, d_updated_at := b, d_history := h\<rparr>"
  have sn: "service_name_of ?r' rn = service_name_of r rn" for rn
    using assms
    by (auto simp add: service_name_of_def or_str_def truthy_str_def split: option.splits)
  have rn: "router_name_of ?r' d = router_name_of r d" for d
    by (simp add: router_name_of_def)
  have ep: "entrypoint_of ?r' = entrypoint_of r"
    by (simp add: entrypoint_of_def)
  have bu: "backend_url ?r' = backend_url r"
    by (simp add: backend_url_def Let_def)
  have rl: "router_lines ?r' d = router_lines r d" for d
    by (simp add: router_lines_def sn rn ep)
  have loop: "routers_loop [?r'] acc = routers_loop [r] acc" for acc
    by (cases acc) (simp add: sn rn bu rl split: option.splits)
  have rd: "list_ex (\<lambda>d. d_redirect_to_https d = Some True) [?r']
      = list_ex (\<lambda>d. d_redirect_to_https d = Some True) [r]"
    by simp
  show ?thesis by (simp only: config_lines_def rd loop)
qed

lemma shop_entry_lines:
  "config_lines [host_domain_entry e shop_request ''shop.example.com''
       (Some ''twinboss_api'') None (Some 9000) ts None] = shop_lines"
proof -
  let ?r = "host_domain_entry e shop_request ''shop.example.com''
       (Some ''twinboss_api'') None (Some 9000) ts None"
  let ?c = "host_domain_entry first_env shop_request ''shop.example.com''
       (Some ''twinboss_api'') None (Some 9000) [] None"
  have r: "?r = ?c\<lparr>d_id := Some (blake2s_hex e ''shop.example.com''),
      d_created_at := Some ts, d_updated_at := Some ts,
      d_history := Some [\<lparr>h_action = ''provisioned'', h_at = ts,
                         h_target = Some ''twinboss_api''\<rparr>]\<rparr>"
    by (simp add: host_domain_entry_def Let_def empty_domain_def truthy_str_def)
  have s: "truthy_str (get_opt (d_service_name ?c))"
    by code_simp
  have "config_lines [?r] = config_lines [?c]"
    by (subst r) (rule config_lines_single_named[OF s])
  also have "\<dots> = shop_lines" by code_simp
  finally show ?thesis .
qed

text \<open>
  C5 as amended. Whatever the stored document holds, after a successful
  \<^verbatim>\<open>host_domain\<close> for \<^verbatim>\<open>shop.example.com\<close> with target service \<^verbatim>\<open>twinboss_api\<close>,
  \<^verbatim>\<open>auto_ssl\<close> and \<^verbatim>\<open>redirect_to_https\<close> set and every other field at its declared
  default, the artifact is the text generated from the stored records, and that
  text contains the redirect middleware block, the router entry of the record
  (rule \<^verbatim>\<open>Host(`shop.example.com`)\<close>, bound to the entry point \<^verbatim>\<open>web\<close>, the declared
  default of \<^verbatim>\<open>entrypoint\<close>, with the redirect middleware attached, service
  \<^verbatim>\<open>twinboss_api\<close>) and the backend \<^verbatim>\<open>twinboss_api\<close>, whose server URLs include
  \<^verbatim>\<open>http://twinboss_api:9000\<close>. The router is named \<^verbatim>\<open>shop-example-com\<close> when the host
  name had no record, and on a document without domain records the artifact is
  exactly \<open>shop_lines\<close>.
\<close>

theorem shop_scenario:
  "host_domain e k shop_request w = (Inr (r, v), w1) \<longrightarrow>
     w_traefik w1 = Some (config_text (stored_domains w1))
     \<and> r \<in> set (stored_domains w1)
     \<and> d_domain r = Some ''shop.example.com''
     \<and> d_entrypoint r = Some ''web''
     \<and> contains (block_text middleware_lines) (config_text (stored_domains w1))
     \<and> router_block r =
         [''    '' @ router_name_of r ''shop.example.com'' @ '':'',
          ''      rule: Host(`shop.example.com`)'',
          ''      entryPoints:'',
          ''        - web'',
          ''      service: twinboss_api'',
          ''      middlewares:'',
          ''        - redirect-to-https'']
     \<and> contains (block_text (router_block r)) (config_text (stored_domains w1))
     \<and> ''http://twinboss_api:9000'' \<in> set (backend_urls ''twinboss_api'' (stored_domains w1))
     \<and> contains
          (block_text (backend_block ''twinboss_api''
             (backend_urls ''twinboss_api'' (stored_domains w1))))
          (config_text (stored_domains w1))
     \<and> (records_for ''shop.example.com'' (stored_domains w) = [] \<longrightarrow>
          router_name_of r ''shop.example.com'' = ''shop-example-com'')
     \<and> (stored_domains w = [] \<longrightarrow>
          w_traefik w1 = Some (join [CHR 0x0A] shop_lines @ [CHR 0x0A]))"
proof (intro impI)
  assume c: "host_domain e k shop_request w = (Inr (r, v), w1)"
  from c obtain n st st1 where n: "normalize_domain (dh_domain shop_request) = Inr n"
    and m: "host_domain_mut e shop_request n (dh_target_service shop_request)
           (host_target_url shop_request) (host_target_port shop_request)
           (now_handler e) st = Inr (st1, r)"
    and d: "domains_of st = stored_domains w"
    and s1: "stored_domains w1 = domains_of st1"
    and t: "w_traefik w1 = Some (config_text (domains_of st1))"
    by (auto elim!: host_domain_Inr)
  from n have n': "n = ''shop.example.com''" by (simp add: shop_values)
  define ex where "ex = find (\<lambda>d. d_domain d = Some n) (domains_of st)"
  note a = host_domain_mut_Inr[OF m]
  from a(1) have r: "r = host_domain_entry e shop_request n
       (Some ''twinboss_api'') None (Some 9000) (now_handler e) ex"
    by (simp add: shop_values ex_def)
  note f = shop_entry_fields[where e = e and n = n and ts = "now_handler e" and ex = ex, folded r]
  from a(4) have dom: "d_domain r = Some ''shop.example.com''" by (simp only: n')
  note parts = shop_record_parts[OF dom f(1-7)]
  from host_domain_mut_records(2)[OF m] have mem: "r \<in> set (stored_domains w1)"
    by (simp only: s1) (rule find_SomeD_mem)
  from mem f(2) have mw: "list_ex (\<lambda>d. d_redirect_to_https d = Some True) (stored_domains w1)"
    unfolding list_ex_iff by blast
  have art: "w_traefik w1 = Some (config_text (stored_domains w1))"
    by (simp only: t s1)
  have rn: "router_name_of r ''shop.example.com'' = ''shop-example-com''"
    if "records_for ''shop.example.com'' (stored_domains w) = []"
  proof -
    from that have "ex = None"
      by (simp add: ex_def find_None_iff records_for_def d n' filter_empty_conv)
    with f(8) have "d_router_name r = Some (replace_dots n)"
      by (simp add: or_str_def replace_dots_def n')
    then show ?thesis
      by (simp add: router_name_of_def or_str_def n' replace_dots_def)
  qed
  have fresh: "w_traefik w1 = Some (join [CHR 0x0A] shop_lines @ [CHR 0x0A])"
    if e: "stored_domains w = []"
  proof -
    from a(1) d e have r0: "r = host_domain_entry e shop_request ''shop.example.com''
         (Some ''twinboss_api'') None (Some 9000) (now_handler e) None"
      by (simp add: n' shop_values)
    from a(2) d e have "domains_of st1 = [r]" by simp
    with t r0 show ?thesis by (simp add: config_text_def shop_entry_lines)
  qed
  note cm = contains_middleware[OF mw]
  note cr = contains_router_block[OF mem]
  note cb = contains_backend[OF mem parts(2)]
  from art mem dom f(1) cm parts(1) cr cb rn fresh
  show "w_traefik w1 = Some (config_text (stored_domains w1))
     \<and> r \<in> set (stored_domains w1)
     \<and> d_domain r = Some ''shop.example.com''
     \<and> d_entrypoint r = Some ''web''
     \<and> contains (block_text middleware_lines) (config_text (stored_domains w1))
     \<and> router_block r =
         [''    '' @ router_name_of r ''shop.example.com'' @ '':'',
          ''      rule: Host(`shop.example.com`)'',
          ''      entryPoints:'',
          ''        - web'',
          ''      service: twinboss_api'',
          ''      middlewares:'',
          ''        - redirect-to-https'']
     \<and> contains (block_text (router_block r)) (config_text (stored_domains w1))
     \<and> ''http://twinboss_api:9000'' \<in> set (backend_urls ''twinboss_api'' (stored_domains w1))
     \<and> contains
          (block_text (backend_block ''twinboss_api''
             (backend_urls ''twinboss_api'' (stored_domains w1))))
          (config_text (stored_domains w1))
     \<and> (records_for ''shop.example.com'' (stored_domains w) = [] \<longrightarrow>
          router_name_of r ''shop.example.com'' = ''shop-example-com'')
     \<and> (stored_domains w = [] \<longrightarrow>
          w_traefik w1 = Some (join [CHR 0x0A] shop_lines @ [CHR 0x0A]))"
    by blast
qed

theorem shop_scenario_witness:
  "map d_domain (stored_domains (snd upsert_first)) = [Some ''a.example.com'']
   \<and> map d_domain (stored_domains (snd shop_after_upsert))
       = [Some ''a.example.com'', Some ''shop.example.com'']
   \<and> w_traefik (snd shop_after_upsert)
       = Some (config_text (stored_domains (snd shop_after_upsert)))
   \<and> d_entrypoint (fst (projr (fst shop_after_upsert))) = Some ''web''
   \<and> contains (block_text middleware_lines)
        (config_text (stored_domains (snd shop_after_upsert)))
   \<and> contains
        (block_text
          [''    shop-example-com:'',
           ''      rule: Host(`shop.example.com`)'',
           ''      entryPoints:'',
           ''        - web'',
           ''      service: twinboss_api'',
           ''      middlewares:'',
           ''        - redirect-to-https''])
        (config_text (stored_domains (snd shop_after_upsert)))
   \<and> ''http://twinboss_api:9000''
        \<in> set (backend_urls ''twinboss_api'' (stored_domains (snd shop_after_upsert)))
   \<and> contains
        (block_text (backend_block ''twinboss_api''
           (backend_urls ''twinboss_api'' (stored_domains (snd shop_after_upsert)))))
        (config_text (stored_domains (snd shop_after_upsert)))
   \<and> w_traefik (snd shop_result) = Some (join [CHR 0x0A] shop_lines @ [CHR 0x0A])"
proof -
  have c: "host_domain second_env example_key shop_request (snd upsert_first) =
      (Inr (fst (projr (fst shop_after_upsert)), snd (projr (fst shop_after_upsert))),
       snd shop_after_upsert)"
    by code_simp
  have c0: "host_domain first_env example_key shop_request fresh_world =
      (Inr (fst (projr (fst shop_result)), snd (projr (fst shop_result))), snd shop_result)"
    by code_simp
  have e0: "stored_domains fresh_world = []"
    by (simp add: stored_domains_def fresh_world_def)
  have d1: "map d_domain (stored_domains (snd upsert_first)) = [Some ''a.example.com'']"
    by code_simp
  have d2: "map d_domain (stored_domains (snd shop_after_upsert))
       = [Some ''a.example.com'', Some ''shop.example.com'']"
    by code_simp
  have e: "records_for ''shop.example.com'' (stored_domains (snd upsert_first)) = []"
    by code_simp
  note t = shop_scenario[rule_format, OF c]
  note t0 = shop_scenario[rule_format, OF c0]
  have rn: "router_name_of (fst (projr (fst shop_after_upsert))) ''shop.example.com''
      = ''shop-example-com''"
    using t e by blast
  have rb: "router_block (fst (projr (fst shop_after_upsert))) =
          [''    shop-example-com:'',
           ''      rule: Host(`shop.example.com`)'',
           ''      entryPoints:'',
           ''        - web'',
           ''      service: twinboss_api'',
           ''      middlewares:'',
           ''        - redirect-to-https'']"
    using t rn by simp
  have fr: "w_traefik (snd shop_result) = Some (join [CHR 0x0A] shop_lines @ [CHR 0x0A])"
    using t0 e0 by blast
  from t have cr: "contains (block_text (router_block (fst (projr (fst shop_after_upsert)))))
        (config_text (stored_domains (snd shop_after_upsert)))"
    by blast
  from t d1 d2 cr[unfolded rb] fr show ?thesis by blast
qed

text \<open>C5 as stated fails: the router of the scenario is bound to \<^verbatim>\<open>web\<close>, and no line
  of the artifact binds a router to \<^verbatim>\<open>websecure\<close>.\<close>

theorem shop_router_not_websecure:
  "w_traefik (snd shop_result) = Some (config_text (stored_domains (snd shop_result)))
   \<and> ''        - web'' \<in> set (config_lines (stored_domains (snd shop_result)))
   \<and> ''        - websecure'' \<notin> set (config_lines (stored_domains (snd shop_result)))"
  by code_simp

text \<open>A successful \<open>register_agent\<close> has run its mutator on the document read\<close>

lemma register_agent_Inr:
  assumes "register_agent e k p w = (Inr r, w1)"
  obtains st st1 where
    "register_agent_mut e p (strip (ar_name p)) (normalized_capabilities (ar_capabilities p))
        (normalize_domains (ar_domains p)) (now_handler e) st = Inr (st1, r)"
    and "agents_of st = stored_agents w" and "stored_agents w1 = agents_of st1"
proof -
  let ?mut = "register_agent_mut e p (strip (ar_name p))
      (normalized_capabilities (ar_capabilities p))
      (normalize_domains (ar_domains p)) (now_handler e)"
  obtain res w2 where u: "update_state e ?mut w = (res, w2)"
    by (cases "update_state e ?mut w")
  from assms u obtain st2 where res: "res = Inr (st2, r)" and w1: "w1 = w2"
    by (auto simp add: register_agent_def Let_def normalized_capabilities_def
        split: option.splits if_splits sum.splits)
  from u show ?thesis
  proof (cases rule: update_state_cases)
    case (failure x)
    with res show ?thesis by simp
  next
    case (success st st1 r')
    with res have "r' = r" by simp
    with success w1 show ?thesis
      by (intro that[of st st1]) (simp_all add: stored_agents_Stored)
  qed
qed

lemma register_agent_mut_Inr:
  assumes "register_agent_mut e p name caps doms ts st = Inr (st1, r)"
  defines "slug \<equiv> slugify (unix_time e) name"
  defines "old \<equiv> agent_or_new (agents_of st) slug ts"
  shows "r = old\<lparr>a_name := Some name, a_slug := Some slug, a_role := Some (ar_role p),
                 a_rights := Some (ar_rights p), a_status := Some (ar_status p),
                 a_endpoint := Some (ar_endpoint p), a_capabilities := Some caps,
                 a_domains := Some doms, a_updated_at := Some ts,
                 a_history := Some ((case a_history old of None \<Rightarrow> [] | Some h \<Rightarrow> h)
                                    @ [\<lparr>ah_action = ''registered'', ah_at = ts\<rparr>])\<rparr>"
    and "agents_of st1 = AList.update slug r (agents_of st)"
  using assms(1) unfolding slug_def old_def
  by (auto simp add: register_agent_mut_def Let_def agents_of_def)

lemma agent_or_new_created:
  "map_of agents slug = Some old \<Longrightarrow> old \<noteq> empty_agent \<Longrightarrow>
   agent_or_new agents slug ts = old"
  by (simp add: agent_or_new_def)

text \<open>C6 as stated fails: after a second registration with other capabilities and
  domains the record holds those of the second request only.\<close>

theorem register_agent_replaces_counterexample:
  "a_capabilities (projr (fst bot_first)) = Some [''search'']
   \<and> a_domains (projr (fst bot_first)) = Some [''a.example.com'']
   \<and> a_capabilities (projr (fst bot_second)) = Some [''deploy'']
   \<and> a_domains (projr (fst bot_second)) = Some [''b.example.com'']
   \<and> map_of (stored_agents (snd bot_second)) ''bot'' = Some (projr (fst bot_second))
   \<and> length (stored_agents (snd bot_second)) = 1"
  by code_simp

text \<open>
  C6 as amended. \<^verbatim>\<open>register_agent\<close> replaces every request field on the record,
  the capabilities and the domains included: the record it returns and stores
  under the slug holds the normalized capabilities and domains of this request,
  whatever the stored record held. Only \<^verbatim>\<open>created_at\<close> and the history are kept
  from the stored record, the history with one entry appended.
\<close>

theorem register_agent_replaces:
  "register_agent e k p w = (Inr r, w1) \<longrightarrow>
     a_capabilities r = Some (normalized_capabilities (ar_capabilities p))
     \<and> a_domains r = Some (normalize_domains (ar_domains p))
     \<and> a_name r = Some (strip (ar_name p))
     \<and> a_role r = Some (ar_role p) \<and> a_rights r = Some (ar_rights p)
     \<and> a_status r = Some (ar_status p) \<and> a_endpoint r = Some (ar_endpoint p)
     \<and> a_updated_at r = Some (now_handler e)
     \<and> map_of (stored_agents w1) (slugify (unix_time e) (strip (ar_name p))) = Some r
     \<and> (map_of (stored_agents w) (slugify (unix_time e) (strip (ar_name p))) = Some old \<longrightarrow>
          old \<noteq> empty_agent \<longrightarrow>
          a_created_at r = a_created_at old
          \<and> a_history r = Some ((case a_history old of None \<Rightarrow> [] | Some h \<Rightarrow> h)
                                 @ [\<lparr>ah_action = ''registered'', ah_at = now_handler e\<rparr>]))"
proof (intro impI)
  assume c: "register_agent e k p w = (Inr r, w1)"
  let ?slug = "slugify (unix_time e) (strip (ar_name p))"
  from c obtain st st1 where
    m: "register_agent_mut e p (strip (ar_name p)) (normalized_capabilities (ar_capabilities p))
        (normalize_domains (ar_domains p)) (now_handler e) st = Inr (st1, r)"
    and d: "agents_of st = stored_agents w" "stored_agents w1 = agents_of st1"
    by (rule register_agent_Inr)
  note a = register_agent_mut_Inr[OF m]
  have f: "a_capabilities r = Some (normalized_capabilities (ar_capabilities p))"
    "a_domains r = Some (normalize_domains (ar_domains p))"
    "a_name r = Some (strip (ar_name p))"
    "a_role r = Some (ar_role p)" "a_rights r = Some (ar_rights p)"
    "a_status r = Some (ar_status p)" "a_endpoint r = Some (ar_endpoint p)"
    "a_updated_at r = Some (now_handler e)"
    by (subst a(1), simp)+
  have s: "map_of (stored_agents w1) ?slug = Some r"
    using a(2) d by (simp add: update_conv')
  have k: "a_created_at r = a_created_at old
      \<and> a_history r = Some ((case a_history old of None \<Rightarrow> [] | Some h \<Rightarrow> h)
                             @ [\<lparr>ah_action = ''registered'', ah_at = now_handler e\<rparr>])"
    if "map_of (stored_agents w) ?slug = Some old" "old \<noteq> empty_agent"
  proof -
    from that d have "agent_or_new (agents_of st) ?slug (now_handler e) = old"
      by (simp add: agent_or_new_created)
    then show ?thesis by (subst (1 2) a(1)) simp
  qed
  from f s k show "a_capabilities r = Some (normalized_capabilities (ar_capabilities p))
     \<and> a_domains r = Some (normalize_domains (ar_domains p))
     \<and> a_name r = Some (strip (ar_name p))
     \<and> a_role r = Some (ar_role p) \<and> a_rights r = Some (ar_rights p)
     \<and> a_status r = Some (ar_status p) \<and> a_endpoint r = Some (ar_endpoint p)
     \<and> a_updated_at r = Some (now_handler e)
     \<and> map_of (stored_agents w1) ?slug = Some r
     \<and> (map_of (stored_agents w) ?slug = Some old \<longrightarrow>
          old \<noteq> empty_agent \<longrightarrow>
          a_created_at r = a_created_at old
          \<and> a_history r = Some ((case a_history old of None \<Rightarrow> [] | Some h \<Rightarrow> h)
                                 @ [\<lparr>ah_action = ''registered'', ah_at = now_handler e\<rparr>]))"
    by blast
qed

theorem register_agent_replaces_witness:
  "a_capabilities (projr (fst bot_second)) = Some [''deploy'']
   \<and> a_domains (projr (fst bot_second)) = Some [''b.example.com'']
   \<and> a_created_at (projr (fst bot_second)) = Some ''2026-01-01T00:00:01Z''
   \<and> a_history (projr (fst bot_second)) =
       Some [\<lparr>ah_action = ''registered'', ah_at = ''2026-01-01T00:00:01Z''\<rparr>,
             \<lparr>ah_action = ''registered'', ah_at = ''2026-01-01T00:00:02Z''\<rparr>]"
proof -
  let ?p = "(AgentRegistration_default ''bot'')
        \<lparr>ar_capabilities := [''deploy''], ar_domains := [''b.example.com'']\<rparr>"
  have c: "register_agent second_env example_key ?p (snd bot_first)
      = (Inr (projr (fst bot_second)), snd bot_second)"
    by code_simp
  have o: "map_of (stored_agents (snd bot_first))
      (slugify (unix_time second_env) (strip (ar_name ?p))) = Some (projr (fst bot_first))"
    by code_simp
  have ne: "projr (fst bot_first) \<noteq> empty_agent" by code_simp
  have v: "normalized_capabilities (ar_capabilities ?p) = [''deploy'']"
    "normalize_domains (ar_domains ?p) = [''b.example.com'']"
    "a_created_at (projr (fst bot_first)) = Some ''2026-01-01T00:00:01Z''"
    "a_history (projr (fst bot_first)) =
       Some [\<lparr>ah_action = ''registered'', ah_at = ''2026-01-01T00:00:01Z''\<rparr>]"
    "now_handler second_env = ''2026-01-01T00:00:02Z''"
    by code_simp+
  note t = register_agent_replaces[rule_format, OF c]
  from t[THEN conjunct1] t[THEN conjunct2, THEN conjunct1]
    t[THEN conjunct2, THEN conjunct2, THEN conjunct2, THEN conjunct2, THEN conjunct2,
      THEN conjunct2, THEN conjunct2, THEN conjunct2, THEN conjunct2, rule_format, OF o ne] v
  show ?thesis by simp
qed

lemma isalnum_not_hyphen: "isalnum c \<Longrightarrow> c \<noteq> CHR ''-''"
  by (auto simp add: isalnum_def ascii_lowercase_def ascii_uppercase_def ascii_digits_def
      latin1_alnum_def)

lemma split_on_nonempty_segment:
  "\<exists>c \<in> set s. c \<noteq> sep \<Longrightarrow> \<exists>seg \<in> set (split_on sep s). seg \<noteq> []"
proof (induction s)
  case Nil
  then show ?case by simp
next
  case (Cons c cs)
  show ?case
  proof (cases "c = sep")
    case True
    with Cons show ?thesis by auto
  next
    case False
    then show ?thesis by (cases "split_on sep cs") auto
  qed
qed

lemma join_nonempty:
  "parts \<noteq> [] \<Longrightarrow> \<forall>seg \<in> set parts. seg \<noteq> [] \<Longrightarrow> join sep parts \<noteq> []"
  by (induction sep parts rule: join.induct) auto

text \<open>With a letter or digit in the lower-cased name, the clock is not consulted\<close>

lemma slugify_clock_free:
  assumes "list_ex isalnum (lower name)"
  shows "slugify t1 name = slugify t2 name"
proof -
  let ?slug = "map (\<lambda>c. if isalnum c then c else CHR ''-'') (lower name)"
  let ?parts = "filter (\<lambda>segment. segment \<noteq> []) (split_on CHR ''-'' ?slug)"
  from assms obtain c where c: "c \<in> set (lower name)" "isalnum c"
    by (auto simp add: list_ex_iff)
  from c(2) have "c \<noteq> CHR ''-''" by (rule isalnum_not_hyphen)
  moreover from c have "c \<in> set ?slug" by (force simp add: image_iff)
  ultimately have "\<exists>c \<in> set ?slug. c \<noteq> CHR ''-''" by blast
  from split_on_nonempty_segment[OF this] have "?parts \<noteq> []"
    by (auto simp add: filter_empty_conv)
  then have "join ''-'' ?parts \<noteq> []" by (rule join_nonempty) simp
  then show ?thesis by (simp add: slugify_def Let_def)
qed

lemma register_agent_same_slug:
  assumes c1: "register_agent e1 k1 p1 w = (Inr r1, w1)"
    and c2: "register_agent e2 k2 p2 w1 = (Inr r2, w2)"
    and s: "slugify (unix_time e1) (strip (ar_name p1)) = slugify (unix_time e2) (strip (ar_name p2))"
  shows "map fst (stored_agents w2) = map fst (stored_agents w1)"
    and "a_slug r2 = a_slug r1" and "a_created_at r2 = a_created_at r1"
    and "map_of (stored_agents w2) (slugify (unix_time e2) (strip (ar_name p2))) = Some r2"
proof -
  let ?slug = "slugify (unix_time e2) (strip (ar_name p2))"
  from c1 obtain st st1 where
    m1: "register_agent_mut e1 p1 (strip (ar_name p1))
        (normalized_capabilities (ar_capabilities p1))
        (normalize_domains (ar_domains p1)) (now_handler e1) st = Inr (st1, r1)"
    and d1: "agents_of st = stored_agents w" "stored_agents w1 = agents_of st1"
    by (rule register_agent_Inr)
  from c2 obtain st' st1' where
    m2: "register_agent_mut e2 p2 (strip (ar_name p2))
        (normalized_capabilities (ar_capabilities p2))
        (normalize_domains (ar_domains p2)) (now_handler e2) st' = Inr (st1', r2)"
    and d2: "agents_of st' = stored_agents w1" "stored_agents w2 = agents_of st1'"
    by (rule register_agent_Inr)
  note a1 = register_agent_mut_Inr[OF m1] and a2 = register_agent_mut_Inr[OF m2]
  have w1: "stored_agents w1 = AList.update ?slug r1 (stored_agents w)"
    using a1(2) d1 s by simp
  have w2: "stored_agents w2 = AList.update ?slug r2 (stored_agents w1)"
    using a2(2) d2 by simp
  have "?slug \<in> fst ` set (stored_agents w1)"
    unfolding w1 by (simp add: dom_update)
  then show "map fst (stored_agents w2) = map fst (stored_agents w1)"
    unfolding w2 by (simp add: update_keys)
  have n1: "a_name r1 = Some (strip (ar_name p1))" "a_slug r1 = Some ?slug"
    by (subst a1(1), simp add: s)+
  then have "r1 \<noteq> empty_agent" by (auto simp add: empty_agent_def)
  moreover have "map_of (stored_agents w1) ?slug = Some r1"
    unfolding w1 by (simp add: update_conv')
  ultimately have old: "agent_or_new (agents_of st') ?slug (now_handler e2) = r1"
    using d2 by (simp add: agent_or_new_created)
  show "a_slug r2 = a_slug r1" by (subst a2(1)) (simp add: n1)
  show "a_created_at r2 = a_created_at r1" by (subst a2(1)) (simp add: old)
  show "map_of (stored_agents w2) ?slug = Some r2"
    unfolding w2 by (simp add: update_conv')
qed

text \<open>C7 as stated fails: a name without letters or digits gets the slug
  \<^verbatim>\<open>agent-<seconds>\<close>, which changes with the clock, and registering it at two
  different seconds leaves two records.\<close>

theorem slug_clock_dependent_counterexample:
  "strip ''!!!'' = ''!!!''
   \<and> slugify (unix_time first_env) ''!!!'' = ''agent-1767225601''
   \<and> slugify (unix_time second_env) ''!!!'' = ''agent-1767225602''
   \<and> map fst (stored_agents (snd punct_first)) = [''agent-1767225601'']
   \<and> map fst (stored_agents (snd punct_second)) = [''agent-1767225601'', ''agent-1767225602'']"
  by code_simp

text \<open>
  C7 as amended. For a name with at least one letter or digit the slug is a
  function of the name alone: the lower-cased name with every run of other
  characters turned into one hyphen, none at the ends; the clock is consulted only
  for a name without any. Two successive successful \<^verbatim>\<open>register_agent\<close> calls
  whose names give the same slug update one record in place: the second call adds
  no key, keeps the slug and \<^verbatim>\<open>created_at\<close>, and the record it returns is the one
  stored under the slug. \<^verbatim>\<open>Ops Bot!\<close> and \<^verbatim>\<open>ops bot\<close> both give \<^verbatim>\<open>ops-bot\<close>.
\<close>

theorem slug_stable_upsert:
  "(list_ex isalnum (lower name) \<longrightarrow> slugify t1 name = slugify t2 name)
   \<and> (register_agent e1 k1 p1 w = (Inr r1, w1) \<longrightarrow>
      register_agent e2 k2 p2 w1 = (Inr r2, w2) \<longrightarrow>
      slugify (unix_time e1) (strip (ar_name p1)) = slugify (unix_time e2) (strip (ar_name p2)) \<longrightarrow>
        map fst (stored_agents w2) = map fst (stored_agents w1)
        \<and> a_slug r2 = a_slug r1 \<and> a_created_at r2 = a_created_at r1
        \<and> map_of (stored_agents w2) (slugify (unix_time e2) (strip (ar_name p2))) = Some r2)
   \<and> slugify t ''Ops Bot!'' = ''ops-bot'' \<and> slugify t ''ops bot'' = ''ops-bot''"
proof (intro conjI impI)
  assume "list_ex isalnum (lower name)"
  then show "slugify t1 name = slugify t2 name" by (rule slugify_clock_free)
next
  assume a: "register_agent e1 k1 p1 w = (Inr r1, w1)"
    "register_agent e2 k2 p2 w1 = (Inr r2, w2)"
    "slugify (unix_time e1) (strip (ar_name p1)) = slugify (unix_time e2) (strip (ar_name p2))"
  note t = register_agent_same_slug[OF a]
  show "map fst (stored_agents w2) = map fst (stored_agents w1)" by (rule t(1))
  show "a_slug r2 = a_slug r1" by (rule t(2))
  show "a_created_at r2 = a_created_at r1" by (rule t(3))
  show "map_of (stored_agents w2) (slugify (unix_time e2) (strip (ar_name p2))) = Some r2"
    by (rule t(4))
next
  have "list_ex isalnum (lower ''Ops Bot!'')" by code_simp
  from slugify_clock_free[OF this, of t 0] show "slugify t ''Ops Bot!'' = ''ops-bot''"
    by (simp only:) code_simp
next
  have "list_ex isalnum (lower ''ops bot'')" by code_simp
  from slugify_clock_free[OF this, of t 0] show "slugify t ''ops bot'' = ''ops-bot''"
    by (simp only:) code_simp
qed

theorem slug_stable_upsert_witness:
  "slugify 1767225601 ''Ops Bot!'' = slugify 1767225602 ''Ops Bot!''
   \<and> map fst (stored_agents (snd ops_second)) = [''ops-bot'']
   \<and> a_slug (projr (fst ops_second)) = Some ''ops-bot''
   \<and> a_name (projr (fst ops_second)) = Some ''ops bot''
   \<and> a_created_at (projr (fst ops_second)) = Some ''2026-01-01T00:00:01Z''
   \<and> map_of (stored_agents (snd ops_second)) ''ops-bot'' = Some (projr (fst ops_second))"
proof -
  have h: "list_ex isalnum (lower ''Ops Bot!'')" by code_simp
  have c1: "register_agent first_env example_key (AgentRegistration_default ''Ops Bot!'')
      fresh_world = (Inr (projr (fst ops_first)), snd ops_first)"
    by code_simp
  have c2: "register_agent second_env example_key (AgentRegistration_default ''ops bot'')
      (snd ops_first) = (Inr (projr (fst ops_second)), snd ops_second)"
    by code_simp
  have s: "slugify (unix_time first_env) (strip (ar_name (AgentRegistration_default ''Ops Bot!'')))
      = slugify (unix_time second_env) (strip (ar_name (AgentRegistration_default ''ops bot'')))"
    by code_simp
  have v: "map fst (stored_agents (snd ops_first)) = [''ops-bot'']"
    "a_slug (projr (fst ops_first)) = Some ''ops-bot''"
    "a_created_at (projr (fst ops_first)) = Some ''2026-01-01T00:00:01Z''"
    "slugify (unix_time second_env) (strip (ar_name (AgentRegistration_default ''ops bot'')))
      = ''ops-bot''"
    "a_name (projr (fst ops_second)) = Some ''ops bot''"
    by code_simp+
  from slug_stable_upsert[THEN conjunct1, rule_format, OF h]
  have a: "slugify 1767225601 ''Ops Bot!'' = slugify 1767225602 ''Ops Bot!''" .
  from slug_stable_upsert[THEN conjunct2, THEN conjunct1, rule_format, OF c1 c2 s] v
  have b: "map fst (stored_agents (snd ops_second)) = [''ops-bot'']
   \<and> a_slug (projr (fst ops_second)) = Some ''ops-bot''
   \<and> a_created_at (projr (fst ops_second)) = Some ''2026-01-01T00:00:01Z''
   \<and> map_of (stored_agents (snd ops_second)) ''ops-bot'' = Some (projr (fst ops_second))"
    by simp
  from a b v(5) show ?thesis by blast
qed

text \<open>What \<open>_read_state_unlocked\<close> catches, it recovers from\<close>

lemma read_state_recovers:
  "x = JSONDecodeError \<or> x = OSError \<Longrightarrow> w_state_file w = Corrupt x \<Longrightarrow>
   read_state e w = (Inr (default_state (now_default e)),
                     w\<lparr>w_state_file := Stored (default_state (now_default e))\<rparr>)"
  by (auto simp add: read_state_def read_state_unlocked_def write_state_unlocked_def Let_def)

lemma default_state_fresh:
  "revision_of (default_state now) = Some 0"
  "map_option s_status (profile_of (default_state now)) = Some (Some ''uninitialized'')"
  by (simp_all add: default_state_def revision_of_def empty_meta_def profile_of_def
      empty_profile_def)

text \<open>The start-up check replaces every unreadable state file\<close>
lemma ensure_state_file_recovers:
  "w_state_file (ensure_state_file now w) =
     (case w_state_file w of
        Stored st \<Rightarrow> Stored st
      | Missing \<Rightarrow> Stored (default_state now)
      | Corrupt x \<Rightarrow> Stored (default_state now))"
  by (simp add: ensure_state_file_def read_state_unlocked_def write_state_unlocked_def Let_def
      split: state_file.splits)

lemma update_state_undecodable:
  "update_state e mutator (undecodable_world a) = (Inl UnicodeDecodeError, undecodable_world a)"
  by (simp add: update_state_def read_state_unlocked_def undecodable_world_def)

text \<open>
  C8. A state file that exists but is not valid UTF-8 cannot be parsed: opening it
  with \<^verbatim>\<open>encoding="utf-8"\<close> and \<^verbatim>\<open>json.load\<close> raise \<^verbatim>\<open>UnicodeDecodeError\<close>, which
  \<^verbatim>\<open>_read_state_unlocked\<close> does not catch. \<^verbatim>\<open>read_state\<close> and \<^verbatim>\<open>update_state\<close> then
  raise it to the caller, nothing is written, and every mutation request ends in
  an exception.
\<close>

theorem undecodable_state_file_raises:
  "read_state e (undecodable_world a) = (Inl UnicodeDecodeError, undecodable_world a)
   \<and> update_state e mutator (undecodable_world a)
       = (Inl UnicodeDecodeError, undecodable_world a)
   \<and> fst (apply_mutation (e, k, m) (undecodable_world a)) \<noteq> None
   \<and> snd (apply_mutation (e, k, m) (undecodable_world a)) = undecodable_world a"
proof -
  have r: "read_state e (undecodable_world a) = (Inl UnicodeDecodeError, undecodable_world a)"
    by (simp add: read_state_def read_state_unlocked_def undecodable_world_def)
  have m: "fst (apply_mutation (e, k, m) (undecodable_world a)) \<noteq> None
     \<and> snd (apply_mutation (e, k, m) (undecodable_world a)) = undecodable_world a"
  proof (cases m)
    case (Host_domain p)
    then show ?thesis
      by (simp add: apply_mutation_def host_domain_def update_state_undecodable
          split: option.splits sum.splits exn.splits)
  next
    case (Register_agent p)
    then show ?thesis
      by (simp add: apply_mutation_def register_agent_def update_state_undecodable Let_def
          split: option.splits)
  next
    case (Agents_create p)
    then show ?thesis
      by (simp add: apply_mutation_def agents_create_def update_state_undecodable Let_def
          split: option.splits)
  next
    case (Setup_storage p)
    then show ?thesis
      by (simp add: apply_mutation_def setup_date_storage_def update_state_undecodable
          split: option.splits)
  qed
  from r update_state_undecodable m show ?thesis by blast
qed

lemma setup_date_storage_mut_result:
  assumes "setup_date_storage_mut p ts st = Inr (st1, r)"
  shows "s_status r = Some ''ready''" and "profile_of st1 = Some r"
    and "s_created_at r =
       (case profile_of st of
          None \<Rightarrow> Some ts
        | Some old \<Rightarrow> if old = empty_profile then Some ts else s_created_at old)"
  using assms
  by (auto simp add: setup_date_storage_mut_def Let_def profile_of_def empty_profile_def
      split: option.splits)

lemma setup_date_storage_Inr:
  assumes "auth e k = None" and "w_state_file w = Missing \<or> (\<exists>st. w_state_file w = Stored st)"
  obtains st st1 r where
    "setup_date_storage e k p w = (Inr (r, revision_of (refresh_meta (now_update e) st1)),
        w\<lparr>w_state_file := Stored (refresh_meta (now_update e) st1)\<rparr>)"
    and "setup_date_storage_mut p (now_handler e) st = Inr (st1, r)"
    and "w_state_file w = Stored st \<or> (w_state_file w = Missing \<and> st = default_state (now_default e))"
proof -
  let ?mut = "setup_date_storage_mut p (now_handler e)"
  from assms(2) obtain st where st:
    "read_state_unlocked (now_default e) w = (Inr st, w)"
    "w_state_file w = Stored st \<or> (w_state_file w = Missing \<and> st = default_state (now_default e))"
    by (auto simp add: read_state_unlocked_def)
  obtain st1 r where m: "?mut st = Inr (st1, r)"
    by (simp add: setup_date_storage_mut_def Let_def)
  from st(1) m assms(1)
  have "setup_date_storage e k p w = (Inr (r, revision_of (refresh_meta (now_update e) st1)),
        w\<lparr>w_state_file := Stored (refresh_meta (now_update e) st1)\<rparr>)"
    by (simp add: setup_date_storage_def update_state_def write_state_unlocked_def Let_def)
  from that[OF this m st(2)] show ?thesis .
qed

lemma profile_refresh [simp]: "profile_of (refresh_meta ts st) = profile_of st"
  by (simp add: profile_of_def storage_refresh_meta)

lemma stored_profile_Stored: "stored_profile (w\<lparr>w_state_file := Stored st\<rparr>) = profile_of st"
  by (simp add: stored_profile_def profile_of_def)

text \<open>
  C10. On a freshly bootstrapped document (the state file absent, or holding the
  default document) \<^verbatim>\<open>setup_date_storage\<close> succeeds and returns and stores a
  profile with status \<^verbatim>\<open>ready\<close> and no \<^verbatim>\<open>created_at\<close>. In general the mutator sets
  \<^verbatim>\<open>created_at\<close> only when the \<^verbatim>\<open>date_app\<close> slot is absent (or holds an empty
  object); a profile in the slot keeps the \<^verbatim>\<open>created_at\<close> it has, which the
  bootstrap profile lacks.
\<close>

theorem first_setup_has_no_created_at:
  "(auth e k = None \<longrightarrow>
      w_state_file w = Missing \<or> w_state_file w = Stored (default_state now) \<longrightarrow>
      (case setup_date_storage e k p w of
         (Inl x, w1) \<Rightarrow> False
       | (Inr (r, v), w1) \<Rightarrow>
           s_status r = Some ''ready'' \<and> s_created_at r = None
           \<and> stored_profile w1 = Some r))
   \<and> (setup_date_storage_mut p ts st = Inr (st1, r1) \<longrightarrow>
        s_status r1 = Some ''ready'' \<and> profile_of st1 = Some r1
        \<and> s_created_at r1 =
            (case profile_of st of
               None \<Rightarrow> Some ts
             | Some old \<Rightarrow> if old = empty_profile then Some ts else s_created_at old))"
proof (intro conjI impI)
  assume a: "auth e k = None"
    and f: "w_state_file w = Missing \<or> w_state_file w = Stored (default_state now)"
  from f have "w_state_file w = Missing \<or> (\<exists>st. w_state_file w = Stored st)" by auto
  from setup_date_storage_Inr[OF a this, of p] obtain st st1 r where
    c: "setup_date_storage e k p w = (Inr (r, revision_of (refresh_meta (now_update e) st1)),
        w\<lparr>w_state_file := Stored (refresh_meta (now_update e) st1)\<rparr>)"
    and m: "setup_date_storage_mut p (now_handler e) st = Inr (st1, r)"
    and s: "w_state_file w = Stored st \<or> (w_state_file w = Missing \<and> st = default_state (now_default e))"
    by blast
  from s f obtain t where "st = default_state t" by auto
  then have "profile_of st =
      Some (empty_profile\<lparr>s_status := Some ''uninitialized'', s_updated_at := Some t\<rparr>)"
    by (simp add: default_state_def profile_of_def)
  with setup_date_storage_mut_result[OF m]
  have "s_status r = Some ''ready''" "s_created_at r = None" "profile_of st1 = Some r"
    by (simp_all add: empty_profile_def)
  with c show "case setup_date_storage e k p w of
         (Inl x, w1) \<Rightarrow> False
       | (Inr (r, v), w1) \<Rightarrow>
           s_status r = Some ''ready'' \<and> s_created_at r = None
           \<and> stored_profile w1 = Some r"
    by (simp add: stored_profile_Stored)
next
  assume m: "setup_date_storage_mut p ts st = Inr (st1, r1)"
  note t = setup_date_storage_mut_result[OF m]
  show "s_status r1 = Some ''ready''" by (rule t(1))
  show "profile_of st1 = Some r1" by (rule t(2))
  show "s_created_at r1 =
            (case profile_of st of
               None \<Rightarrow> Some ts
             | Some old \<Rightarrow> if old = empty_profile then Some ts else s_created_at old)"
    by (rule t(3))
qed

theorem first_setup_has_no_created_at_witness:
  "(case setup_date_storage first_env example_key DateStorageRequest_default bootstrapped_world of
      (Inl x, w1) \<Rightarrow> False
    | (Inr (r, v), w1) \<Rightarrow>
        s_status r = Some ''ready'' \<and> s_created_at r = None \<and> stored_profile w1 = Some r)
   \<and> (case setup_date_storage first_env example_key DateStorageRequest_default fresh_world of
      (Inl x, w1) \<Rightarrow> False
    | (Inr (r, v), w1) \<Rightarrow>
        s_status r = Some ''ready'' \<and> s_created_at r = None \<and> stored_profile w1 = Some r)
   \<and> s_created_at (snd (projr (setup_date_storage_mut DateStorageRequest_default
        ''2026-01-01T00:00:01Z''
        ((default_state ''2026-01-01T00:00:00Z'')\<lparr>st_storage := Some \<lparr>date_app = None\<rparr>\<rparr>))))
      = Some ''2026-01-01T00:00:01Z''"
proof -
  have a: "auth first_env example_key = None"
    by (simp add: auth_def first_env_def example_env_def example_key_def)
  have b: "w_state_file bootstrapped_world = Missing
      \<or> w_state_file bootstrapped_world = Stored (default_state ''2026-01-01T00:00:00Z'')"
    by (simp add: bootstrapped_world_def)
  have f: "w_state_file fresh_world = Missing
      \<or> w_state_file fresh_world = Stored (default_state ''2026-01-01T00:00:00Z'')"
    by (simp add: fresh_world_def)
  let ?st = "(default_state ''2026-01-01T00:00:00Z'')\<lparr>st_storage := Some \<lparr>date_app = None\<rparr>\<rparr>"
  let ?m = "setup_date_storage_mut DateStorageRequest_default ''2026-01-01T00:00:01Z'' ?st"
  have m: "?m = Inr (fst (projr ?m), snd (projr ?m))"
    by (simp add: setup_date_storage_mut_def Let_def)
  have p: "profile_of ?st = None" by (simp add: profile_of_def)
  from first_setup_has_no_created_at[THEN conjunct1, rule_format, OF a b]
    first_setup_has_no_created_at[THEN conjunct1, rule_format, OF a f]
    first_setup_has_no_created_at[THEN conjunct2, rule_format, OF m] p
  show ?thesis by simp
qed

end
